theory Spec2Isabelle
  imports Complex_Main
begin

section \<open>Joint beam search of the dual decoder\<close>

text \<open>
  A shallow embedding of \<^verbatim>\<open>E2EDualDecoder.recognize_and_translate_sum\<close>
  (\<^verbatim>\<open>espnet/nets/pytorch_backend/e2e_st_transformer_dual.py\<close>).

  Conventions of the embedding:
  \<^item> Scores and ratios are Python floats; they are modelled as \<^typ>\<open>real\<close>, which
    leaves rounding, infinities and NaN out of the model.
  \<^item> Token ids are indices of the vocabulary, modelled as \<^typ>\<open>nat\<close>.
  \<^item> Every token list of a hypothesis is a Python list object. The code shares such
    objects between hypotheses and appends to them in place, so the lists live in an
    explicit store and a hypothesis holds the addresses of its two lists. The
    hypothesis dictionaries themselves are never shared: each is created by one
    expansion and updated once (the penalty), so they are modelled as values.
  \<^item> Exceptions are values of \<open>error\<close>; a function that can raise returns
    \<open>error + 'a\<close>.
  \<^item> The dual step decoder and the end-detection predicate are not part of the file;
    they are parameters of the model. The decoder receives the two token lists and the
    sizes of the two self-masks (the cross masks are functions of the token lists and of
    the fixed wait-k settings) and may raise.
  \<^item> The preamble of the function (choice of the start tokens \<open>y\<close> and
    \<open>y_asr\<close>, encoding of the input, logging) is the same in every recursive call and
    is taken to have succeeded, so the start tokens and the encoder length \<open>T\<close> are
    parameters. The preamble indexes \<^verbatim>\<open>char_list\<close>, so \<^verbatim>\<open>char_list\<close> is a list
    when the loop starts; it is taken to cover every token id. Logging is left out
    except where it can raise (\<^verbatim>\<open>hyps[0]\<close> on an empty beam).
  \<^item> The class never assigns \<^verbatim>\<open>self.decoder\<close>, which the \<^verbatim>\<open>use_jit\<close> branch
    reads: with \<^verbatim>\<open>use_jit\<close> the first hypothesis raises \<open>AttributeError\<close>.
  \<^item> \<^verbatim>\<open>xs[-1]\<close> is \<open>last xs\<close> and a read of the store is \<open>\<sigma> ! a\<close>; the invariant
    \<open>wf_state\<close> below holds in every state of a run and says that the lists are not
    empty and the addresses are allocated.
\<close>

datatype error =
    AssertionError | KeyError | AttributeError | UnboundLocalError | RuntimeError
  | ZeroDivisionError | NotImplementedError | IndexError | RecursionError | DecoderError

subsection \<open>Data\<close>

text \<open>The attributes of \<^verbatim>\<open>self\<close> read by the search.\<close>

record model =
  do_asr :: bool
  eos :: nat
  wait_k_asr :: int
  wait_k_st :: int

text \<open>The fields of \<^verbatim>\<open>trans_args\<close> read by the search.\<close>

record trans_args =
  beam_size :: int
  penalty :: real
  nbest :: int
  maxlenratio :: real
  maxlenratio_asr :: real
  minlenratio :: real
  minlenratio_asr :: real

text \<open>The keyword arguments after \<^verbatim>\<open>rnnlm\<close>.\<close>

record kwargs =
  use_jit :: bool
  decode_asr_weight :: real
  score_is_prob :: bool
  ratio_diverse_st :: real
  ratio_diverse_asr :: real
  debug :: bool

definition default_kwargs :: kwargs where
  "default_kwargs = \<lparr>use_jit = False, decode_asr_weight = 1, score_is_prob = False,
     ratio_diverse_st = 0, ratio_diverse_asr = 0, debug = False\<rparr>"

type_synonym addr = nat
type_synonym store = "nat list list"

record hyp =
  score :: real
  yseq :: addr
  yseq_asr :: addr

text \<open>
  A local variable holding a score tensor: \<open>None\<close> is "not yet bound",
  \<open>Some None\<close> is Python's \<^verbatim>\<open>None\<close>, \<open>Some (Some xs)\<close> a distribution.
\<close>

type_synonym pyvar = "real list option option"

type_synonym decoder = "nat list \<Rightarrow> int \<Rightarrow> nat list \<Rightarrow> int \<Rightarrow> error + (real list \<times> real list)"

text \<open>A selected candidate: its score and, for each stream that has a distribution, the
  chosen token.\<close>

type_synonym cand = "real \<times> nat option \<times> nat option"

record search_state =
  heap :: store
  hyps :: "hyp list"
  ended_hyps :: "hyp list"
  local_att_scores :: pyvar
  local_att_scores_asr :: pyvar

datatype loop_exit = Continue | Break_end_detect | Break_no_hyps

subsection \<open>Python and torch primitives\<close>

text \<open>\<^verbatim>\<open>int(x)\<close> on a float truncates toward zero.\<close>

definition py_int :: "real \<Rightarrow> int" where
  "py_int r = (if 0 \<le> r then \<lfloor>r\<rfloor> else \<lceil>r\<rceil>)"

text \<open>The slice \<^verbatim>\<open>xs[:k]\<close>; a negative \<open>k\<close> counts from the end.\<close>

definition py_take :: "int \<Rightarrow> 'a list \<Rightarrow> 'a list" where
  "py_take k xs = (if 0 \<le> k then take (nat k) xs else take (nat (int (length xs) + k)) xs)"

text \<open>
  \<^verbatim>\<open>t.topk(k)\<close> on a vector: the \<open>k\<close> largest values in descending order with their
  indices; it raises when \<open>k\<close> is out of range. torch leaves the order of equal values
  open; the model takes the lower index first.
\<close>

definition topk :: "int \<Rightarrow> real list \<Rightarrow> error + (real \<times> nat) list" where
  "topk k xs =
     (if k < 0 \<or> int (length xs) < k then Inl RuntimeError
      else Inr (take (nat k) (sort_key (\<lambda>p. - fst p) (zip xs [0..<length xs]))))"

text \<open>\<^verbatim>\<open>sorted(hs, key=lambda x: x['score'], reverse=True)\<close>: stable, descending.\<close>

definition sorted_desc :: "hyp list \<Rightarrow> hyp list" where
  "sorted_desc hs = sort_key (\<lambda>h. - score h) hs"

subsection \<open>Self-mask sizes (lines 535-550)\<close>

text \<open>The argument of \<^verbatim>\<open>subsequent_mask\<close> at step \<open>i\<close> for the stream whose partner
  has wait-k \<open>wk\<close>.\<close>

definition self_mask_len :: "int \<Rightarrow> nat \<Rightarrow> int" where
  "self_mask_len wk i =
     (if 0 < wk then (if int i < wk then 1 else int i - wk + 1) else int i + 1)"

definition ys_mask_len :: "model \<Rightarrow> nat \<Rightarrow> int" where
  "ys_mask_len m i = self_mask_len (wait_k_asr m) i"

definition ys_mask_asr_len :: "model \<Rightarrow> nat \<Rightarrow> int" where
  "ys_mask_asr_len m i = self_mask_len (wait_k_st m) i"

subsection \<open>Scoring one hypothesis (lines 553-571)\<close>

definition step_scores ::
  "model \<Rightarrow> decoder \<Rightarrow> bool \<Rightarrow> nat \<Rightarrow> nat list \<Rightarrow> nat list \<Rightarrow> pyvar \<times> pyvar
     \<Rightarrow> error + (pyvar \<times> pyvar)" where
  "step_scores m dec jit i ys ys_a prev =
     (if jit then Inl AttributeError
      else
        (case (if last ys \<noteq> eos m \<or> last ys_a \<noteq> eos m \<or> i < 2
               then (case dec ys (ys_mask_len m i) ys_a (ys_mask_asr_len m i) of
                       Inl e \<Rightarrow> Inl e
                     | Inr (a, b) \<Rightarrow> Inr (Some (Some a), Some (Some b)))
               else Inr prev) of
           Inl e \<Rightarrow> Inl e
         | Inr (a, b) \<Rightarrow>
             Inr (if (last ys = eos m \<and> 2 < i) \<or> int i < wait_k_asr m then Some None else a,
                  if (last ys_a = eos m \<and> 2 < i) \<or> int i < wait_k_st m then Some None else b)))"

subsection \<open>Joint selection with diversity forcing (lines 573-640)\<close>

text \<open>\<open>S[a][b] = xk[a] + yk[b]\<close>, and the matrix of index pairs \<open>s2v\<close> reshaped to
  \<open>beam \<times> beam \<times> 2\<close>; \<open>concat\<close> flattens either.\<close>

definition outer_sum :: "real list \<Rightarrow> real list \<Rightarrow> real list list" where
  "outer_sum xk yk = map (\<lambda>x. map (\<lambda>y. x + y) yk) xk"

definition s2v_rows :: "nat list \<Rightarrow> nat list \<Rightarrow> (nat \<times> nat) list list" where
  "s2v_rows ixk iyk = map (\<lambda>i. map (\<lambda>j. (i, j)) iyk) ixk"

text \<open>
  \<^verbatim>\<open>local_best_scores, id2k = Sc.flatten().topk(beam); I = I[id2k]\<close>, and the two
  columns of \<open>I\<close>. Without diversity forcing an index tensor without elements (beam
  \<open>0\<close>) is one-dimensional and \<^verbatim>\<open>I[:,0]\<close> raises \<open>IndexError\<close>: \<open>empty_err\<close> is
  \<open>Some IndexError\<close> there. With diversity forcing the tensor has been reshaped, the
  columns of the empty tensor are read without an error, and \<open>empty_err\<close> is \<open>None\<close>.
\<close>

definition pick ::
  "error option \<Rightarrow> int \<Rightarrow> real list \<Rightarrow> (nat \<times> nat) list \<Rightarrow> error + cand list" where
  "pick empty_err beam sc ids =
     (case topk beam sc of
        Inl e \<Rightarrow> Inl e
      | Inr r \<Rightarrow>
          (case (if ids = [] then empty_err else None) of
             Some e \<Rightarrow> Inl e
           | None \<Rightarrow> Inr (map (\<lambda>(s, k). (s, Some (fst (ids ! k)), Some (snd (ids ! k)))) r)))"

text \<open>
  \<^verbatim>\<open>int((1 - ratio) * beam)\<close>. The code computes \<open>1 - ratio\<close> and the product in
  floating point: for a ratio below \<open>2 ^ -53\<close> the difference rounds to \<open>1.0\<close> and the
  code's span is the whole beam, where the real number below gives one less. Only
  statements that survive this rounding (the order of two spans, values at exactly
  representable inputs) are made about these two functions.
\<close>

definition diverse_cr :: "int \<Rightarrow> real \<Rightarrow> int" where
  "diverse_cr beam r_asr = py_int ((1 - r_asr) * real_of_int beam)"

definition diverse_ct :: "int \<Rightarrow> real \<Rightarrow> int" where
  "diverse_ct beam r_st = py_int ((1 - r_st) * real_of_int beam)"

text \<open>\<^verbatim>\<open>ct = max(ct, math.ceil(beam // cr))\<close>: the floor division is done first, so the
  ceiling is applied to an integer.\<close>

definition widened_ct :: "int \<Rightarrow> int \<Rightarrow> int \<Rightarrow> error + int" where
  "widened_ct beam cr ct = (if cr = 0 then Inl ZeroDivisionError else Inr (max ct (beam div cr)))"

definition select_joint ::
  "int \<Rightarrow> real \<Rightarrow> real \<Rightarrow> real list \<Rightarrow> real list \<Rightarrow> error + cand list" where
  "select_joint beam r_st r_asr las las_a =
     (case topk beam las of
        Inl e \<Rightarrow> Inl e
      | Inr xk \<Rightarrow>
     (case topk beam las_a of
        Inl e \<Rightarrow> Inl e
      | Inr yk \<Rightarrow>
          (let S = outer_sum (map fst xk) (map fst yk);
               s2v = s2v_rows (map snd xk) (map snd yk)
           in if r_st \<le> 0 \<and> r_asr \<le> 0 then pick (Some IndexError) beam (concat S) (concat s2v)
              else if 0 < r_st \<and> r_asr \<le> 0 then
                (let ct = diverse_ct beam r_st
                 in pick None beam (concat (map (py_take ct) S))
                      (concat (map (py_take ct) s2v)))
              else if 0 < r_asr \<and> r_st \<le> 0 then
                (let cr = diverse_cr beam r_asr
                 in pick None beam (concat (py_take cr S)) (concat (py_take cr s2v)))
              else
                (let cr = diverse_cr beam r_asr
                 in case widened_ct beam cr (diverse_ct beam r_st) of
                      Inl e \<Rightarrow> Inl e
                    | Inr ct \<Rightarrow>
                        pick None beam (concat (map (py_take ct) (py_take cr S)))
                          (concat (map (py_take ct) (py_take cr s2v)))))))"

definition select_single :: "int \<Rightarrow> real list \<Rightarrow> error + (real \<times> nat) list" where
  "select_single beam las = topk beam las"

definition select_cands ::
  "int \<Rightarrow> real \<Rightarrow> real \<Rightarrow> pyvar \<Rightarrow> pyvar \<Rightarrow> error + cand list" where
  "select_cands beam r_st r_asr a b =
     (case a of
        None \<Rightarrow> Inl UnboundLocalError
      | Some None \<Rightarrow>
          (case b of
             None \<Rightarrow> Inl UnboundLocalError
           | Some None \<Rightarrow> Inl NotImplementedError
           | Some (Some las_a) \<Rightarrow>
               (case select_single beam las_a of
                  Inl e \<Rightarrow> Inl e
                | Inr r \<Rightarrow> Inr (map (\<lambda>(s, k). (s, None, Some k)) r)))
      | Some (Some las) \<Rightarrow>
          (case b of
             None \<Rightarrow> Inl UnboundLocalError
           | Some None \<Rightarrow>
               (case select_single beam las of
                  Inl e \<Rightarrow> Inl e
                | Inr r \<Rightarrow> Inr (map (\<lambda>(s, k). (s, Some k, None)) r))
           | Some (Some las_a) \<Rightarrow> select_joint beam r_st r_asr las las_a))"

subsection \<open>Materialising the new hypotheses (lines 642-670)\<close>

definition alloc :: "store \<Rightarrow> nat list \<Rightarrow> store \<times> addr" where
  "alloc \<sigma> xs = (\<sigma> @ [xs], length \<sigma>)"

text \<open>
  One stream of a new hypothesis. With a token the parent's list is copied and extended;
  without one it is copied and extended by eos when the lag \<open>wk\<close> is over, and otherwise
  the new hypothesis is given the parent's list object itself.
\<close>

definition new_stream :: "nat \<Rightarrow> int \<Rightarrow> nat \<Rightarrow> addr \<Rightarrow> nat option \<Rightarrow> store \<Rightarrow> store \<times> addr" where
  "new_stream e wk i a tok \<sigma> =
     (case tok of
        Some t \<Rightarrow> alloc \<sigma> (\<sigma> ! a @ [t])
      | None \<Rightarrow> (if wk \<le> int i then alloc \<sigma> (\<sigma> ! a @ [e]) else (\<sigma>, a)))"

definition new_hyp :: "model \<Rightarrow> nat \<Rightarrow> hyp \<Rightarrow> cand \<Rightarrow> store \<Rightarrow> store \<times> hyp" where
  "new_hyp m i h c \<sigma> =
     (case c of (s, tok_st, tok_asr) \<Rightarrow>
        (case new_stream (eos m) (wait_k_asr m) i (yseq h) tok_st \<sigma> of (\<sigma>1, a1) \<Rightarrow>
        (case new_stream (eos m) (wait_k_st m) i (yseq_asr h) tok_asr \<sigma>1 of (\<sigma>2, a2) \<Rightarrow>
           (\<sigma>2, \<lparr>score = score h + s, yseq = a1, yseq_asr = a2\<rparr>))))"

text \<open>The loop over \<open>j\<close>: append the new hypothesis, sort, keep the first \<open>beam\<close>.\<close>

fun expand :: "model \<Rightarrow> int \<Rightarrow> nat \<Rightarrow> hyp \<Rightarrow> cand list \<Rightarrow> store \<times> hyp list \<Rightarrow> store \<times> hyp list" where
  "expand m beam i h [] acc = acc"
| "expand m beam i h (c # cs) (\<sigma>, kept) =
     (case new_hyp m i h c \<sigma> of (\<sigma>', n) \<Rightarrow>
        expand m beam i h cs (\<sigma>', py_take beam (sorted_desc (kept @ [n]))))"

text \<open>The loop over the hypotheses of the beam (lines 534-670).\<close>

fun expand_all ::
  "model \<Rightarrow> decoder \<Rightarrow> kwargs \<Rightarrow> int \<Rightarrow> nat \<Rightarrow> hyp list \<Rightarrow> pyvar \<times> pyvar \<Rightarrow> store \<times> hyp list
     \<Rightarrow> error + ((pyvar \<times> pyvar) \<times> store \<times> hyp list)" where
  "expand_all m dec kw beam i [] vars acc = Inr (vars, acc)"
| "expand_all m dec kw beam i (h # hs) vars (\<sigma>, kept) =
     (case step_scores m dec (use_jit kw) i (\<sigma> ! yseq h) (\<sigma> ! yseq_asr h) vars of
        Inl e \<Rightarrow> Inl e
      | Inr (a, b) \<Rightarrow>
          (case select_cands beam (ratio_diverse_st kw) (ratio_diverse_asr kw) a b of
             Inl e \<Rightarrow> Inl e
           | Inr cs \<Rightarrow> expand_all m dec kw beam i hs (a, b) (expand m beam i h cs (\<sigma>, kept))))"

subsection \<open>Forced eos, partition, one step (lines 672-719)\<close>

text \<open>\<^verbatim>\<open>for hyp in hyps: if hyp[k][-1] != eos: hyp[k].append(eos)\<close>, in place.\<close>

fun force_eos :: "nat \<Rightarrow> (hyp \<Rightarrow> addr) \<Rightarrow> hyp list \<Rightarrow> store \<Rightarrow> store" where
  "force_eos e sel [] \<sigma> = \<sigma>"
| "force_eos e sel (h # hs) \<sigma> =
     force_eos e sel hs
       (if last (\<sigma> ! sel h) \<noteq> e then \<sigma>[sel h := \<sigma> ! sel h @ [e]] else \<sigma>)"

definition both_eos :: "model \<Rightarrow> store \<Rightarrow> hyp \<Rightarrow> bool" where
  "both_eos m \<sigma> h = (last (\<sigma> ! yseq h) = eos m \<and> last (\<sigma> ! yseq_asr h) = eos m)"

definition long_enough :: "int \<Rightarrow> int \<Rightarrow> store \<Rightarrow> hyp \<Rightarrow> bool" where
  "long_enough minlen minlen_asr \<sigma> h =
     (minlen < int (length (\<sigma> ! yseq h)) \<and> minlen_asr < int (length (\<sigma> ! yseq_asr h)))"

fun partition_hyps ::
  "model \<Rightarrow> int \<Rightarrow> int \<Rightarrow> real \<Rightarrow> nat \<Rightarrow> store \<Rightarrow> hyp list \<Rightarrow> hyp list \<times> hyp list
     \<Rightarrow> hyp list \<times> hyp list" where
  "partition_hyps m minlen minlen_asr pen i \<sigma> [] acc = acc"
| "partition_hyps m minlen minlen_asr pen i \<sigma> (h # hs) (ended, remained) =
     partition_hyps m minlen minlen_asr pen i \<sigma> hs
       (if both_eos m \<sigma> h then
          (if long_enough minlen minlen_asr \<sigma> h
           then (ended @ [h\<lparr>score := score h + real (i + 1) * pen\<rparr>], remained)
           else (ended, remained))
        else (ended, remained @ [h]))"

text \<open>The lengths derived from the ratios and the encoder length \<open>T\<close> (lines 505-514).\<close>

definition max_len :: "real \<Rightarrow> nat \<Rightarrow> int" where
  "max_len ratio T = (if ratio = 0 then int T else max 1 (py_int (ratio * real T)))"

definition min_len :: "real \<Rightarrow> nat \<Rightarrow> int" where
  "min_len ratio T = py_int (ratio * real T)"

type_synonym end_detector = "store \<Rightarrow> hyp list \<Rightarrow> nat \<Rightarrow> bool"

text \<open>
  The body of the loop over \<open>i\<close>. After the \<^verbatim>\<open>break\<close> on end detection the variable
  \<^verbatim>\<open>hyps\<close> still holds the pruned beam; it is not read again.
\<close>

definition step ::
  "model \<Rightarrow> decoder \<Rightarrow> end_detector \<Rightarrow> trans_args \<Rightarrow> kwargs \<Rightarrow> nat \<Rightarrow> nat \<Rightarrow> search_state
     \<Rightarrow> error + (loop_exit \<times> search_state)" where
  "step m dec end_detect ta kw T i s =
     (case expand_all m dec kw (beam_size ta) i (hyps s)
             (local_att_scores s, local_att_scores_asr s) (heap s, []) of
        Inl e \<Rightarrow> Inl e
      | Inr ((a, b), \<sigma>, kept) \<Rightarrow>
          (if kept = [] then Inl IndexError
           else
             (let \<sigma>1 = (if int i = max_len (maxlenratio ta) T - 1
                         then force_eos (eos m) yseq kept \<sigma> else \<sigma>);
                  \<sigma>2 = (if int i = max_len (maxlenratio_asr ta) T - 1
                         then force_eos (eos m) yseq_asr kept \<sigma>1 else \<sigma>1);
                  (ended, remained) =
                     partition_hyps m (min_len (minlenratio ta) T) (min_len (minlenratio_asr ta) T)
                       (penalty ta) i \<sigma>2 kept (ended_hyps s, [])
              in if end_detect \<sigma>2 ended i \<and> maxlenratio ta = 0 then
                   Inr (Break_end_detect,
                        \<lparr>heap = \<sigma>2, hyps = kept, ended_hyps = ended,
                         local_att_scores = a, local_att_scores_asr = b\<rparr>)
                 else if remained \<noteq> [] then
                   Inr (Continue,
                        \<lparr>heap = \<sigma>2, hyps = remained, ended_hyps = ended,
                         local_att_scores = a, local_att_scores_asr = b\<rparr>)
                 else
                   Inr (Break_no_hyps,
                        \<lparr>heap = \<sigma>2, hyps = remained, ended_hyps = ended,
                         local_att_scores = a, local_att_scores_asr = b\<rparr>))))"

text \<open>\<^verbatim>\<open>for i in range(max(maxlen, maxlen_asr))\<close>: \<open>n\<close> iterations are left, the next
  index is \<open>i\<close>.\<close>

fun search_loop ::
  "model \<Rightarrow> decoder \<Rightarrow> end_detector \<Rightarrow> trans_args \<Rightarrow> kwargs \<Rightarrow> nat \<Rightarrow> nat \<Rightarrow> nat \<Rightarrow> search_state
     \<Rightarrow> error + search_state" where
  "search_loop m dec end_detect ta kw T 0 i s = Inr s"
| "search_loop m dec end_detect ta kw T (Suc n) i s =
     (case step m dec end_detect ta kw T i s of
        Inl e \<Rightarrow> Inl e
      | Inr (Continue, s') \<Rightarrow> search_loop m dec end_detect ta kw T n (Suc i) s'
      | Inr (_, s') \<Rightarrow> Inr s')"

subsection \<open>The whole call (lines 453-743)\<close>

definition init_state :: "nat \<Rightarrow> nat \<Rightarrow> search_state" where
  "init_state y y_asr =
     \<lparr>heap = [[y], [y_asr]], hyps = [\<lparr>score = 0, yseq = 0, yseq_asr = 1\<rparr>], ended_hyps = [],
      local_att_scores = None, local_att_scores_asr = None\<rparr>"

definition n_steps :: "trans_args \<Rightarrow> nat \<Rightarrow> nat" where
  "n_steps ta T = nat (max (max_len (maxlenratio ta) T) (max_len (maxlenratio_asr ta) T))"

definition nbest_hyps :: "trans_args \<Rightarrow> hyp list \<Rightarrow> hyp list" where
  "nbest_hyps ta ended = py_take (min (int (length ended)) (nbest ta)) (sorted_desc ended)"

definition relax :: "trans_args \<Rightarrow> trans_args" where
  "relax ta = ta\<lparr>minlenratio := max 0 (minlenratio ta - 1 / 10),
                 minlenratio_asr := max 0 (minlenratio_asr ta - 1 / 10)\<rparr>"

text \<open>
  One run of the search up to the end of the loop. With a language model the initial
  hypothesis has no \<^verbatim>\<open>yseq_asr\<close> key, so the first iteration raises.
\<close>

definition run_search ::
  "model \<Rightarrow> decoder \<Rightarrow> end_detector \<Rightarrow> nat \<Rightarrow> nat \<Rightarrow> nat \<Rightarrow> bool \<Rightarrow> trans_args \<Rightarrow> kwargs
     \<Rightarrow> error + search_state" where
  "run_search m dec end_detect y y_asr T rnnlm ta kw =
     (if \<not> do_asr m then Inl AssertionError
      else if rnnlm \<and> 0 < n_steps ta T then Inl KeyError
      else search_loop m dec end_detect ta kw T (n_steps ta T) 0 (init_state y y_asr))"

text \<open>
  The function itself. The first argument is the number of Python frames still
  available: the fallback calls the function again, and a call with no frame left is
  Python's \<^verbatim>\<open>RecursionError\<close>. The result is the n-best list with the store its
  addresses refer to.
\<close>

fun recognize_and_translate_sum ::
  "nat \<Rightarrow> model \<Rightarrow> decoder \<Rightarrow> end_detector \<Rightarrow> nat \<Rightarrow> nat \<Rightarrow> nat \<Rightarrow> bool \<Rightarrow> trans_args \<Rightarrow> kwargs
     \<Rightarrow> error + (store \<times> hyp list)" where
  "recognize_and_translate_sum 0 m dec end_detect y y_asr T rnnlm ta kw = Inl RecursionError"
| "recognize_and_translate_sum (Suc d) m dec end_detect y y_asr T rnnlm ta kw =
     (case run_search m dec end_detect y y_asr T rnnlm ta kw of
        Inl e \<Rightarrow> Inl e
      | Inr s \<Rightarrow>
          (if nbest_hyps ta (ended_hyps s) = []
           then recognize_and_translate_sum d m dec end_detect y y_asr T rnnlm (relax ta)
                  default_kwargs
           else Inr (heap s, nbest_hyps ta (ended_hyps s))))"

text \<open>What the caller reads from a returned hypothesis.\<close>

definition tokens_st :: "store \<Rightarrow> hyp \<Rightarrow> nat list" where
  "tokens_st \<sigma> h = \<sigma> ! yseq h"

definition tokens_asr :: "store \<Rightarrow> hyp \<Rightarrow> nat list" where
  "tokens_asr \<sigma> h = \<sigma> ! yseq_asr h"

subsection \<open>The unrestricted joint top-k, in the words of the specification\<close>

text \<open>
  "Form the outer-sum matrix \<open>S[a,b] = topk_st_score[a] + topk_asr_score[b]\<close> over the
  top-\<open>beam_size\<close> candidates of each stream, then select the final top-\<open>beam_size\<close>
  \<open>(a,b)\<close> pairs from \<open>S\<close>": position \<open>k\<close> of the flattened matrix is the pair
  \<open>(k div beam, k mod beam)\<close>.
\<close>

definition unrestricted_joint_topk :: "int \<Rightarrow> real list \<Rightarrow> real list \<Rightarrow> error + cand list" where
  "unrestricted_joint_topk beam las las_a =
     (case topk beam las of
        Inl e \<Rightarrow> Inl e
      | Inr xk \<Rightarrow>
     (case topk beam las_a of
        Inl e \<Rightarrow> Inl e
      | Inr yk \<Rightarrow>
     (case topk beam (concat (map (\<lambda>x. map (\<lambda>y. fst x + fst y) yk) xk)) of
        Inl e \<Rightarrow> Inl e
      | Inr r \<Rightarrow>
          Inr (map (\<lambda>(s, k). (s, Some (snd (xk ! (k div nat beam))),
                                 Some (snd (yk ! (k mod nat beam))))) r))))"

subsection \<open>Invariants of the search state\<close>

text \<open>
  \<open>frozen e \<sigma> \<sigma>'\<close>: the store has only grown, and every list that ended with \<open>e\<close> is
  unchanged. \<open>wf_state\<close>: no list of the store is empty, the addresses of every
  hypothesis are allocated, and both lists of every ended hypothesis end with eos. The
  initial state is well-formed and every step keeps a state well-formed.
\<close>

definition frozen :: "nat \<Rightarrow> store \<Rightarrow> store \<Rightarrow> bool" where
  "frozen e \<sigma> \<sigma>' =
     (length \<sigma> \<le> length \<sigma>' \<and> (\<forall>a<length \<sigma>. last (\<sigma> ! a) = e \<longrightarrow> \<sigma>' ! a = \<sigma> ! a))"

definition nonempty_lists :: "store \<Rightarrow> bool" where
  "nonempty_lists \<sigma> = list_all (\<lambda>xs. xs \<noteq> []) \<sigma>"

definition valid_hyp :: "store \<Rightarrow> hyp \<Rightarrow> bool" where
  "valid_hyp \<sigma> h = (yseq h < length \<sigma> \<and> yseq_asr h < length \<sigma>)"

definition ended_ok :: "model \<Rightarrow> store \<Rightarrow> hyp \<Rightarrow> bool" where
  "ended_ok m \<sigma> h = (valid_hyp \<sigma> h \<and> both_eos m \<sigma> h)"

definition wf_state :: "model \<Rightarrow> search_state \<Rightarrow> bool" where
  "wf_state m s =
     (nonempty_lists (heap s) \<and> list_all (valid_hyp (heap s)) (hyps s)
      \<and> list_all (ended_ok m (heap s)) (ended_hyps s))"

subsection \<open>Relations between stores and between hypotheses\<close>

text \<open>
  Used in the proofs. \<open>extends\<close>: lists were allocated and none was changed.
  \<open>grows e\<close>: no list was allocated and a list changed at most by one \<open>e\<close> appended to a
  list that did not end with \<open>e\<close>. \<open>stream_after\<close> is the content of the list that
  \<open>new_stream\<close> gives to a new hypothesis, and \<open>child_of\<close> relates a parent (read in
  the store before the expansion) to a hypothesis made from it.
\<close>

definition extends :: "store \<Rightarrow> store \<Rightarrow> bool" where
  "extends \<sigma> \<sigma>' = (length \<sigma> \<le> length \<sigma>' \<and> (\<forall>a<length \<sigma>. \<sigma>' ! a = \<sigma> ! a))"

definition stream_after :: "nat \<Rightarrow> int \<Rightarrow> nat \<Rightarrow> nat list \<Rightarrow> nat option \<Rightarrow> nat list" where
  "stream_after e wk i old tok =
     (case tok of Some t \<Rightarrow> old @ [t] | None \<Rightarrow> if wk \<le> int i then old @ [e] else old)"

definition child_of :: "model \<Rightarrow> nat \<Rightarrow> store \<Rightarrow> hyp \<Rightarrow> store \<Rightarrow> hyp \<Rightarrow> bool" where
  "child_of m i \<sigma> p \<sigma>' n =
     (\<exists>t_st t_asr.
        \<sigma>' ! yseq n = stream_after (eos m) (wait_k_asr m) i (\<sigma> ! yseq p) t_st
      \<and> \<sigma>' ! yseq_asr n = stream_after (eos m) (wait_k_st m) i (\<sigma> ! yseq_asr p) t_asr
      \<and> (last (\<sigma> ! yseq p) = eos m \<and> 2 < i \<longrightarrow> t_st = None)
      \<and> (last (\<sigma> ! yseq_asr p) = eos m \<and> 2 < i \<longrightarrow> t_asr = None))"

text \<open>The candidates of a parent respect its ended streams.\<close>

definition cands_ok :: "model \<Rightarrow> nat \<Rightarrow> store \<Rightarrow> hyp \<Rightarrow> cand list \<Rightarrow> bool" where
  "cands_ok m i \<sigma> p cs =
     (\<forall>c\<in>set cs. (last (\<sigma> ! yseq p) = eos m \<and> 2 < i \<longrightarrow> fst (snd c) = None)
               \<and> (last (\<sigma> ! yseq_asr p) = eos m \<and> 2 < i \<longrightarrow> snd (snd c) = None))"

definition grows :: "nat \<Rightarrow> store \<Rightarrow> store \<Rightarrow> bool" where
  "grows e \<sigma> \<sigma>' =
     (length \<sigma>' = length \<sigma>
      \<and> (\<forall>a<length \<sigma>. \<sigma>' ! a = \<sigma> ! a \<or> (last (\<sigma> ! a) \<noteq> e \<and> \<sigma>' ! a = \<sigma> ! a @ [e])))"

subsection \<open>Concrete inputs\<close>

text \<open>
  A model over the vocabulary \<open>{0, 1, 2}\<close> with eos \<open>2\<close> and no lag. \<open>ex_decoder\<close>
  prefers token \<open>0\<close> while a stream is short and eos afterwards (the translation ends
  earlier than the transcript); \<open>eos_decoder\<close> always prefers eos.
\<close>

definition ex_model :: model where
  "ex_model = \<lparr>do_asr = True, eos = 2, wait_k_asr = 0, wait_k_st = 0\<rparr>"

definition ex_decoder :: decoder where
  "ex_decoder ys ml ys_a ml_a =
     Inr (if length ys < 2 then [-1, -2, -3] else [-3, -2, -1],
          if length ys_a < 4 then [-1, -2, -3] else [-3, -2, -1])"

definition eos_decoder :: decoder where
  "eos_decoder ys ml ys_a ml_a = Inr ([-3, -2, -1], [-3, -2, -1])"

definition ex_args :: trans_args where
  "ex_args = \<lparr>beam_size = 2, penalty = 0, nbest = 2, maxlenratio = 0, maxlenratio_asr = 0,
     minlenratio = 0, minlenratio_asr = 0\<rparr>"

definition fb_args :: trans_args where
  "fb_args = ex_args\<lparr>minlenratio := 41 / 20, minlenratio_asr := 41 / 20\<rparr>"

definition st_diverse_kwargs :: kwargs where
  "st_diverse_kwargs = default_kwargs\<lparr>decode_asr_weight := 1 / 2, ratio_diverse_st := 1 / 2\<rparr>"

definition asr_ratio_args :: trans_args where
  "asr_ratio_args = ex_args\<lparr>maxlenratio_asr := 1 / 2\<rparr>"

definition lag_model :: model where
  "lag_model = ex_model\<lparr>wait_k_asr := 2\<rparr>"

definition lag_st_model :: model where
  "lag_st_model = ex_model\<lparr>wait_k_st := 3\<rparr>"

text \<open>States of two runs: the greedy run of \<open>ex_decoder\<close> on five frames after three and
  four steps, and the run of \<open>eos_decoder\<close> on two frames after one and two steps.\<close>

definition greedy_args :: trans_args where
  "greedy_args = ex_args\<lparr>beam_size := 1\<rparr>"

definition greedy_state3 :: search_state where
  "greedy_state3 =
     \<lparr>heap = [[2], [2], [2, 0], [2, 0], [2, 0, 2], [2, 0, 0], [2, 0, 2, 2], [2, 0, 0, 0]],
      hyps = [\<lparr>score = - 6, yseq = 6, yseq_asr = 7\<rparr>], ended_hyps = [],
      local_att_scores = Some (Some [- 3, - 2, - 1]),
      local_att_scores_asr = Some (Some [- 1, - 2, - 3])\<rparr>"

definition greedy_state4 :: search_state where
  "greedy_state4 =
     \<lparr>heap = [[2], [2], [2, 0], [2, 0], [2, 0, 2], [2, 0, 0], [2, 0, 2, 2], [2, 0, 0, 0],
              [2, 0, 2, 2, 2], [2, 0, 0, 0, 2]],
      hyps = [], ended_hyps = [\<lparr>score = - 7, yseq = 8, yseq_asr = 9\<rparr>],
      local_att_scores = Some None,
      local_att_scores_asr = Some (Some [- 3, - 2, - 1])\<rparr>"

definition eos_state1 :: search_state where
  "eos_state1 =
     \<lparr>heap = [[2], [2], [2, 2], [2, 2], [2, 2], [2, 1]],
      hyps = [\<lparr>score = - 3, yseq = 4, yseq_asr = 5\<rparr>],
      ended_hyps = [\<lparr>score = - 2, yseq = 2, yseq_asr = 3\<rparr>],
      local_att_scores = Some (Some [- 3, - 2, - 1]),
      local_att_scores_asr = Some (Some [- 3, - 2, - 1])\<rparr>"

definition eos_state2 :: search_state where
  "eos_state2 =
     \<lparr>heap = [[2], [2], [2, 2], [2, 2], [2, 2], [2, 1], [2, 2, 2], [2, 1, 2], [2, 2, 2],
              [2, 1, 1, 2]],
      hyps = [],
      ended_hyps = [\<lparr>score = - 2, yseq = 2, yseq_asr = 3\<rparr>, \<lparr>score = - 5, yseq = 6, yseq_asr = 7\<rparr>,
                    \<lparr>score = - 6, yseq = 8, yseq_asr = 9\<rparr>],
      local_att_scores = Some (Some [- 3, - 2, - 1]),
      local_att_scores_asr = Some (Some [- 3, - 2, - 1])\<rparr>"

definition never_end :: end_detector where
  "never_end \<sigma> ended i = False"

definition always_end :: end_detector where
  "always_end \<sigma> ended i = True"

section \<open>Properties\<close>

subsection \<open>The store only grows, and lists that ended stay as they are\<close>

lemma frozen_refl: "frozen e \<sigma> \<sigma>"
  by (simp add: frozen_def)

lemma frozen_trans: "frozen e \<sigma> \<sigma>' \<Longrightarrow> frozen e \<sigma>' \<sigma>'' \<Longrightarrow> frozen e \<sigma> \<sigma>''"
  unfolding frozen_def by (metis le_trans less_le_trans)

lemma frozen_append: "frozen e \<sigma> (\<sigma> @ [xs])"
  by (simp add: frozen_def nth_append)

lemma frozen_update: "last (\<sigma> ! b) \<noteq> e \<Longrightarrow> frozen e \<sigma> (\<sigma>[b := xs])"
  unfolding frozen_def by (intro conjI allI impI) (simp, metis nth_list_update_neq)

lemma nonempty_append: "nonempty_lists \<sigma> \<Longrightarrow> xs \<noteq> [] \<Longrightarrow> nonempty_lists (\<sigma> @ [xs])"
  by (simp add: nonempty_lists_def)

lemma nonempty_update: "nonempty_lists \<sigma> \<Longrightarrow> xs \<noteq> [] \<Longrightarrow> nonempty_lists (\<sigma>[b := xs])"
  unfolding nonempty_lists_def list_all_iff by (auto dest: set_update_subset_insert [THEN subsetD])

lemma valid_hyp_mono: "valid_hyp \<sigma> h \<Longrightarrow> length \<sigma> \<le> length \<sigma>' \<Longrightarrow> valid_hyp \<sigma>' h"
  by (simp add: valid_hyp_def)

lemma new_stream_props:
  assumes "new_stream e wk i a tok \<sigma> = (\<sigma>', a')" and "a < length \<sigma>"
  shows "frozen e \<sigma> \<sigma>'" and "a' < length \<sigma>'" and "nonempty_lists \<sigma> \<Longrightarrow> nonempty_lists \<sigma>'"
  using assms
  by (auto simp: new_stream_def alloc_def frozen_append frozen_refl nonempty_append
      split: option.splits if_splits)

lemma new_hyp_props:
  assumes "new_hyp m i h c \<sigma> = (\<sigma>', n)" and "valid_hyp \<sigma> h"
  shows "frozen (eos m) \<sigma> \<sigma>'" and "valid_hyp \<sigma>' n" and "nonempty_lists \<sigma> \<Longrightarrow> nonempty_lists \<sigma>'"
proof -
  obtain s t1 t2 where c: "c = (s, t1, t2)" by (cases c)
  obtain \<sigma>1 a1 where s1: "new_stream (eos m) (wait_k_asr m) i (yseq h) t1 \<sigma> = (\<sigma>1, a1)"
    by (cases "new_stream (eos m) (wait_k_asr m) i (yseq h) t1 \<sigma>")
  obtain \<sigma>2 a2 where s2: "new_stream (eos m) (wait_k_st m) i (yseq_asr h) t2 \<sigma>1 = (\<sigma>2, a2)"
    by (cases "new_stream (eos m) (wait_k_st m) i (yseq_asr h) t2 \<sigma>1")
  from assms(1) c s1 s2 have eq: "\<sigma>' = \<sigma>2" "n = \<lparr>score = score h + s, yseq = a1, yseq_asr = a2\<rparr>"
    by (simp_all add: new_hyp_def)
  from assms(2) have v: "yseq h < length \<sigma>" "yseq_asr h < length \<sigma>"
    by (simp_all add: valid_hyp_def)
  note p1 = new_stream_props [OF s1 v(1)]
  from p1(1) v(2) have v2: "yseq_asr h < length \<sigma>1" by (simp add: frozen_def)
  note p2 = new_stream_props [OF s2 v2]
  show "frozen (eos m) \<sigma> \<sigma>'" using p1(1) p2(1) eq by (auto intro: frozen_trans)
  from p2(1) p1(2) have "a1 < length \<sigma>2" by (simp add: frozen_def)
  then show "valid_hyp \<sigma>' n" using p2(2) eq by (simp add: valid_hyp_def)
  show "nonempty_lists \<sigma> \<Longrightarrow> nonempty_lists \<sigma>'" using p1(3) p2(3) eq by simp
qed

lemma set_py_take: "set (py_take k xs) \<subseteq> set xs"
  by (auto simp: py_take_def dest: in_set_takeD)

lemma set_sorted_desc: "set (sorted_desc xs) = set xs"
  by (simp add: sorted_desc_def)

lemma expand_props:
  assumes "expand m beam i h cs (\<sigma>, kept) = (\<sigma>', kept')"
    and "valid_hyp \<sigma> h" and "list_all (valid_hyp \<sigma>) kept"
  shows "frozen (eos m) \<sigma> \<sigma>' \<and> list_all (valid_hyp \<sigma>') kept'
         \<and> (nonempty_lists \<sigma> \<longrightarrow> nonempty_lists \<sigma>')"
  using assms
proof (induction cs arbitrary: \<sigma> kept)
  case Nil
  then show ?case by (simp add: frozen_refl)
next
  case (Cons c cs)
  obtain \<sigma>1 n where nh: "new_hyp m i h c \<sigma> = (\<sigma>1, n)" by (cases "new_hyp m i h c \<sigma>")
  note p = new_hyp_props [OF nh Cons.prems(2)]
  from p(1) have len: "length \<sigma> \<le> length \<sigma>1" by (simp add: frozen_def)
  let ?k = "py_take beam (sorted_desc (kept @ [n]))"
  from Cons.prems(1) nh have ex: "expand m beam i h cs (\<sigma>1, ?k) = (\<sigma>', kept')" by simp
  have vh: "valid_hyp \<sigma>1 h" using Cons.prems(2) len by (rule valid_hyp_mono)
  have "list_all (valid_hyp \<sigma>1) (kept @ [n])"
    using Cons.prems(3) p(2) len by (auto simp: list_all_iff intro: valid_hyp_mono)
  then have vk: "list_all (valid_hyp \<sigma>1) ?k"
    using set_py_take [of beam "sorted_desc (kept @ [n])"]
    by (auto simp: list_all_iff set_sorted_desc)
  from Cons.IH [OF ex vh vk] p(1) p(3) show ?case by (auto intro: frozen_trans)
qed

lemma expand_all_props:
  assumes "expand_all m dec kw beam i hs vars (\<sigma>, kept) = Inr (vars', \<sigma>', kept')"
    and "list_all (valid_hyp \<sigma>) hs" and "list_all (valid_hyp \<sigma>) kept"
  shows "frozen (eos m) \<sigma> \<sigma>' \<and> list_all (valid_hyp \<sigma>') kept'
         \<and> (nonempty_lists \<sigma> \<longrightarrow> nonempty_lists \<sigma>')"
  using assms
proof (induction hs arbitrary: \<sigma> kept vars)
  case Nil
  then show ?case by (simp add: frozen_refl)
next
  case (Cons h hs)
  from Cons.prems(1) obtain a b cs where
    sel: "select_cands beam (ratio_diverse_st kw) (ratio_diverse_asr kw) a b = Inr cs"
    and rest: "expand_all m dec kw beam i hs (a, b) (expand m beam i h cs (\<sigma>, kept))
                 = Inr (vars', \<sigma>', kept')"
    by (auto split: sum.splits)
  obtain \<sigma>1 k1 where e1: "expand m beam i h cs (\<sigma>, kept) = (\<sigma>1, k1)"
    by (cases "expand m beam i h cs (\<sigma>, kept)")
  from Cons.prems(2) have vh: "valid_hyp \<sigma> h" and vhs: "list_all (valid_hyp \<sigma>) hs" by simp_all
  from expand_props [OF e1 vh Cons.prems(3)]
  have p: "frozen (eos m) \<sigma> \<sigma>1" "list_all (valid_hyp \<sigma>1) k1"
      "nonempty_lists \<sigma> \<longrightarrow> nonempty_lists \<sigma>1" by simp_all
  from p(1) have len: "length \<sigma> \<le> length \<sigma>1" by (simp add: frozen_def)
  have vhs1: "list_all (valid_hyp \<sigma>1) hs"
    using vhs len by (auto simp: list_all_iff intro: valid_hyp_mono)
  from rest e1 have r: "expand_all m dec kw beam i hs (a, b) (\<sigma>1, k1) = Inr (vars', \<sigma>', kept')"
    by simp
  from Cons.IH [OF r vhs1 p(2)] p show ?case by (auto intro: frozen_trans)
qed

lemma force_eos_props:
  "frozen e \<sigma> (force_eos e sel hs \<sigma>) \<and> length (force_eos e sel hs \<sigma>) = length \<sigma>
   \<and> (nonempty_lists \<sigma> \<longrightarrow> nonempty_lists (force_eos e sel hs \<sigma>))"
proof (induction hs arbitrary: \<sigma>)
  case Nil
  then show ?case by (simp add: frozen_refl)
next
  case (Cons h hs)
  let ?\<sigma>1 = "if last (\<sigma> ! sel h) \<noteq> e then \<sigma>[sel h := \<sigma> ! sel h @ [e]] else \<sigma>"
  have f1: "frozen e \<sigma> ?\<sigma>1" by (simp add: frozen_update frozen_refl)
  have l1: "length ?\<sigma>1 = length \<sigma>" by simp
  have n1: "nonempty_lists \<sigma> \<longrightarrow> nonempty_lists ?\<sigma>1" by (simp add: nonempty_update)
  from Cons.IH [of ?\<sigma>1] f1 l1 n1 show ?case
    by (auto intro: frozen_trans simp del: length_list_update)
qed


lemma partition_hyps_eq:
  "partition_hyps m ml mla pen i \<sigma> hs (ended, remained) =
     (ended @ map (\<lambda>h. h\<lparr>score := score h + real (i + 1) * pen\<rparr>)
                (filter (\<lambda>h. both_eos m \<sigma> h \<and> long_enough ml mla \<sigma> h) hs),
      remained @ filter (\<lambda>h. \<not> both_eos m \<sigma> h) hs)"
  by (induction hs arbitrary: ended remained) simp_all

lemma frozen_tokens:
  assumes "frozen (eos m) \<sigma> \<sigma>'" and "ended_ok m \<sigma> h"
  shows "\<sigma>' ! yseq h = \<sigma> ! yseq h" and "\<sigma>' ! yseq_asr h = \<sigma> ! yseq_asr h"
  using assms by (simp_all add: frozen_def ended_ok_def valid_hyp_def both_eos_def)

lemma frozen_ended_ok:
  assumes "frozen (eos m) \<sigma> \<sigma>'" and "ended_ok m \<sigma> h"
  shows "ended_ok m \<sigma>' h"
proof -
  from assms(1) have "length \<sigma> \<le> length \<sigma>'" by (simp add: frozen_def)
  with assms(2) have "valid_hyp \<sigma>' h" by (auto simp: ended_ok_def intro: valid_hyp_mono)
  moreover have "both_eos m \<sigma>' h"
    using frozen_tokens [OF assms] assms(2) by (simp add: both_eos_def ended_ok_def)
  ultimately show ?thesis by (simp add: ended_ok_def)
qed

lemma frozen_long_enough:
  assumes "frozen (eos m) \<sigma> \<sigma>'" and "ended_ok m \<sigma> h" and "long_enough ml mla \<sigma> h"
  shows "long_enough ml mla \<sigma>' h"
  using frozen_tokens [OF assms(1,2)] assms(3) by (simp add: long_enough_def)

lemma valid_hyp_score [simp]: "valid_hyp \<sigma> (h\<lparr>score := x\<rparr>) = valid_hyp \<sigma> h"
  by (simp add: valid_hyp_def)

lemma both_eos_score [simp]: "both_eos m \<sigma> (h\<lparr>score := x\<rparr>) = both_eos m \<sigma> h"
  by (simp add: both_eos_def)

lemma ended_ok_score [simp]: "ended_ok m \<sigma> (h\<lparr>score := x\<rparr>) = ended_ok m \<sigma> h"
  by (simp add: ended_ok_def)

lemma long_enough_score [simp]: "long_enough ml mla \<sigma> (h\<lparr>score := x\<rparr>) = long_enough ml mla \<sigma> h"
  by (simp add: long_enough_def)

text \<open>What one step does to a well-formed state.\<close>

lemma step_props:
  assumes st: "step m dec ed ta kw T i s = Inr (ex, s')" and wf: "wf_state m s"
  shows "wf_state m s'"
    and "frozen (eos m) (heap s) (heap s')"
    and "\<exists>new. ended_hyps s' = ended_hyps s @ new
           \<and> list_all (long_enough (min_len (minlenratio ta) T) (min_len (minlenratio_asr ta) T)
                         (heap s')) new"
proof -
  from st obtain a b \<sigma> kept where
    ea: "expand_all m dec kw (beam_size ta) i (hyps s)
           (local_att_scores s, local_att_scores_asr s) (heap s, []) = Inr ((a, b), \<sigma>, kept)"
    by (auto simp: step_def split: sum.splits)
  define \<sigma>1 where "\<sigma>1 = (if int i = max_len (maxlenratio ta) T - 1
                         then force_eos (eos m) yseq kept \<sigma> else \<sigma>)"
  define \<sigma>2 where "\<sigma>2 = (if int i = max_len (maxlenratio_asr ta) T - 1
                         then force_eos (eos m) yseq_asr kept \<sigma>1 else \<sigma>1)"
  define ml where "ml = min_len (minlenratio ta) T"
  define mla where "mla = min_len (minlenratio_asr ta) T"
  define new where "new = map (\<lambda>h. h\<lparr>score := score h + real (i + 1) * penalty ta\<rparr>)
                (filter (\<lambda>h. both_eos m \<sigma>2 h \<and> long_enough ml mla \<sigma>2 h) kept)"
  define remained where "remained = filter (\<lambda>h. \<not> both_eos m \<sigma>2 h) kept"
  have part: "partition_hyps m ml mla (penalty ta) i \<sigma>2 kept (ended_hyps s, [])
                = (ended_hyps s @ new, remained)"
    by (simp add: partition_hyps_eq new_def remained_def)
  from st ea part have s': "heap s' = \<sigma>2" "ended_hyps s' = ended_hyps s @ new"
    "set (hyps s') \<subseteq> set kept"
    by (auto simp: step_def Let_def \<sigma>1_def \<sigma>2_def ml_def mla_def remained_def
        split: if_splits)
  from wf have w: "nonempty_lists (heap s)" "list_all (valid_hyp (heap s)) (hyps s)"
    "list_all (ended_ok m (heap s)) (ended_hyps s)"
    by (simp_all add: wf_state_def)
  from expand_all_props [OF ea w(2)]
  have e: "frozen (eos m) (heap s) \<sigma>" "list_all (valid_hyp \<sigma>) kept" "nonempty_lists \<sigma>"
    using w(1) by simp_all
  have f1: "frozen (eos m) \<sigma> \<sigma>1" "length \<sigma>1 = length \<sigma>" "nonempty_lists \<sigma>1"
    using force_eos_props [of "eos m" \<sigma> yseq kept] e(3) by (auto simp: \<sigma>1_def frozen_refl)
  have f2: "frozen (eos m) \<sigma>1 \<sigma>2" "length \<sigma>2 = length \<sigma>1" "nonempty_lists \<sigma>2"
    using force_eos_props [of "eos m" \<sigma>1 yseq_asr kept] f1(3) by (auto simp: \<sigma>2_def frozen_refl)
  have fr: "frozen (eos m) (heap s) \<sigma>2"
    using e(1) f1(1) f2(1) by (blast intro: frozen_trans)
  have vk: "list_all (valid_hyp \<sigma>2) kept"
    using e(2) f1(2) f2(2) by (simp add: list_all_iff valid_hyp_def)
  have old: "list_all (ended_ok m \<sigma>2) (ended_hyps s)"
    using w(3) fr by (auto simp: list_all_iff intro: frozen_ended_ok)
  have nw: "list_all (ended_ok m \<sigma>2) new" "list_all (long_enough ml mla \<sigma>2) new"
    using vk by (auto simp: new_def list_all_iff ended_ok_def)
  show "wf_state m s'"
    using s' f2(3) vk old nw(1) by (auto simp: wf_state_def list_all_iff)
  show "frozen (eos m) (heap s) (heap s')" using fr s'(1) by simp
  show "\<exists>new. ended_hyps s' = ended_hyps s @ new
           \<and> list_all (long_enough (min_len (minlenratio ta) T) (min_len (minlenratio_asr ta) T)
                         (heap s')) new"
    using s' nw(2) by (auto simp: ml_def mla_def)
qed


lemma wf_init: "wf_state m (init_state y y_asr)"
  by (simp add: wf_state_def init_state_def nonempty_lists_def valid_hyp_def)

lemma search_loop_props:
  assumes "search_loop m dec ed ta kw T n i s = Inr s'" and "wf_state m s"
    and "list_all (long_enough (min_len (minlenratio ta) T) (min_len (minlenratio_asr ta) T)
           (heap s)) (ended_hyps s)"
  shows "wf_state m s' \<and> frozen (eos m) (heap s) (heap s')
         \<and> (\<exists>new. ended_hyps s' = ended_hyps s @ new)
         \<and> list_all (long_enough (min_len (minlenratio ta) T) (min_len (minlenratio_asr ta) T)
              (heap s')) (ended_hyps s')"
  using assms
proof (induction n arbitrary: i s)
  case 0
  then show ?case by (simp add: frozen_refl)
next
  case (Suc n)
  let ?ml = "min_len (minlenratio ta) T" and ?mla = "min_len (minlenratio_asr ta) T"
  from Suc.prems(1) obtain ex s1 where st: "step m dec ed ta kw T i s = Inr (ex, s1)"
    by (auto split: sum.splits)
  note p = step_props [OF st Suc.prems(2)]
  from p(3) obtain new where new: "ended_hyps s1 = ended_hyps s @ new"
    "list_all (long_enough ?ml ?mla (heap s1)) new" by blast
  from Suc.prems(2) have eo: "list_all (ended_ok m (heap s)) (ended_hyps s)"
    by (simp add: wf_state_def)
  have le1: "list_all (long_enough ?ml ?mla (heap s1)) (ended_hyps s1)"
    using new eo Suc.prems(3) p(2)
    by (auto simp: list_all_iff intro: frozen_long_enough)
  show ?case
  proof (cases ex)
    case Continue
    with Suc.prems(1) st have "search_loop m dec ed ta kw T n (Suc i) s1 = Inr s'" by simp
    from Suc.IH [OF this p(1) le1] p(2) new(1) show ?thesis
      by (auto intro: frozen_trans)
  next
    case Break_end_detect
    with Suc.prems(1) st have "s' = s1" by simp
    with p new(1) le1 show ?thesis by auto
  next
    case Break_no_hyps
    with Suc.prems(1) st have "s' = s1" by simp
    with p new(1) le1 show ?thesis by auto
  qed
qed

lemma run_search_props:
  assumes "run_search m dec ed y y_asr T rnnlm ta kw = Inr s"
  shows "wf_state m s"
    and "list_all (long_enough (min_len (minlenratio ta) T) (min_len (minlenratio_asr ta) T)
           (heap s)) (ended_hyps s)"
proof -
  from assms have sl: "search_loop m dec ed ta kw T (n_steps ta T) 0 (init_state y y_asr) = Inr s"
    by (simp add: run_search_def split: if_splits)
  have "list_all (long_enough (min_len (minlenratio ta) T) (min_len (minlenratio_asr ta) T)
           (heap (init_state y y_asr))) (ended_hyps (init_state y y_asr))"
    by (simp add: init_state_def)
  from search_loop_props [OF sl wf_init this]
  show "wf_state m s"
    and "list_all (long_enough (min_len (minlenratio ta) T) (min_len (minlenratio_asr ta) T)
           (heap s)) (ended_hyps s)" by simp_all
qed

lemma sorted_desc_sorted: "sorted_wrt (\<lambda>a b. score b \<le> score a) (sorted_desc hs)"
proof -
  have "sorted (map (\<lambda>h. - score h) (sort_key (\<lambda>h. - score h) hs))" by (rule sorted_sort_key)
  then show ?thesis by (simp add: sorted_desc_def sorted_map)
qed

lemma py_take_sorted: "sorted_wrt P xs \<Longrightarrow> sorted_wrt P (py_take k xs)"
  by (simp add: py_take_def)

lemma length_py_take: "0 \<le> k \<Longrightarrow> int (length (py_take k xs)) \<le> k"
  by (simp add: py_take_def)

lemma nbest_hyps_props:
  "sorted_wrt (\<lambda>a b. score b \<le> score a) (nbest_hyps ta ended)"
  "0 \<le> nbest ta \<Longrightarrow> int (length (nbest_hyps ta ended)) \<le> nbest ta"
  "set (nbest_hyps ta ended) \<subseteq> set ended"
proof -
  show "sorted_wrt (\<lambda>a b. score b \<le> score a) (nbest_hyps ta ended)"
    by (simp add: nbest_hyps_def py_take_sorted sorted_desc_sorted)
  show "set (nbest_hyps ta ended) \<subseteq> set ended"
    using set_py_take [of "min (int (length ended)) (nbest ta)" "sorted_desc ended"]
    by (simp add: nbest_hyps_def set_sorted_desc)
  assume "0 \<le> nbest ta"
  then have "int (length (nbest_hyps ta ended)) \<le> min (int (length ended)) (nbest ta)"
    unfolding nbest_hyps_def by (intro length_py_take) simp
  then show "int (length (nbest_hyps ta ended)) \<le> nbest ta" by simp
qed

lemma relax_fields [simp]:
  "beam_size (relax ta) = beam_size ta" "penalty (relax ta) = penalty ta"
  "nbest (relax ta) = nbest ta" "maxlenratio (relax ta) = maxlenratio ta"
  "maxlenratio_asr (relax ta) = maxlenratio_asr ta"
  by (simp_all add: relax_def)

subsection \<open>The returned list\<close>

text \<open>
  C1. Whenever the call returns, the returned list has at most \<open>nbest\<close> entries and is
  sorted by descending score. The configuration only has to have a non-negative
  \<open>nbest\<close>; every other way the call can end is an exception and returns no list.
\<close>

theorem nbest_length_sorted:
  assumes "recognize_and_translate_sum d m dec ed y y_asr T rnnlm ta kw = Inr (\<sigma>, res)"
    and "0 \<le> nbest ta"
  shows "int (length res) \<le> nbest ta \<and> sorted_wrt (\<lambda>a b. score b \<le> score a) res"
  using assms
proof (induction d arbitrary: ta kw)
  case 0
  then show ?case by simp
next
  case (Suc d)
  from Suc.prems(1) obtain s where rs: "run_search m dec ed y y_asr T rnnlm ta kw = Inr s"
    by (auto split: sum.splits)
  show ?case
  proof (cases "nbest_hyps ta (ended_hyps s) = []")
    case True
    with Suc.prems(1) rs
    have "recognize_and_translate_sum d m dec ed y y_asr T rnnlm (relax ta) default_kwargs
            = Inr (\<sigma>, res)" by simp
    from Suc.IH [OF this] Suc.prems(2) show ?thesis by simp
  next
    case False
    with Suc.prems(1) rs have "res = nbest_hyps ta (ended_hyps s)" by simp
    with nbest_hyps_props(1,2) [of ta "ended_hyps s"] Suc.prems(2) show ?thesis by simp
  qed
qed

theorem nbest_length_sorted_witness:
  "(case recognize_and_translate_sum 1 ex_model ex_decoder never_end 2 2 5 False ex_args
           default_kwargs of
      Inl e \<Rightarrow> False
    | Inr (\<sigma>, res) \<Rightarrow>
        map score res = [- 7, - 9] \<and> 0 \<le> nbest ex_args
        \<and> int (length res) \<le> nbest ex_args \<and> sorted_wrt (\<lambda>a b. score b \<le> score a) res)"
proof -
  have run: "recognize_and_translate_sum 1 ex_model ex_decoder never_end 2 2 5 False ex_args
      default_kwargs =
    Inr ([[2], [2], [2, 0], [2, 0], [2, 0], [2, 1], [2, 0, 2], [2, 0, 0],
       [2, 0, 2], [2, 0, 1], [2, 0, 2], [2, 1, 0], [2, 0, 2], [2, 1, 1],
       [2, 0, 2, 2], [2, 0, 0, 0], [2, 0, 2, 2], [2, 0, 0, 1], [2, 0, 2, 2],
       [2, 0, 1, 0], [2, 0, 2, 2], [2, 0, 1, 1], [2, 0, 2, 2, 2],
       [2, 0, 0, 0, 2], [2, 0, 2, 2, 2], [2, 0, 0, 0, 1], [2, 0, 2, 2, 2],
       [2, 0, 0, 1, 2], [2, 0, 2, 2, 2], [2, 0, 0, 1, 1],
       [2, 0, 2, 2, 2, 2], [2, 0, 0, 0, 1, 2], [2, 0, 2, 2, 2, 2],
       [2, 0, 0, 0, 1, 1, 2]],
      [\<lparr>score = - 7, yseq = 22, yseq_asr = 23\<rparr>,
       \<lparr>score = - 9, yseq = 30, yseq_asr = 31\<rparr>])"
    by code_simp
  have nb: "0 \<le> nbest ex_args" by (simp add: ex_args_def)
  from nbest_length_sorted [OF run nb] nb show ?thesis unfolding run by simp
qed

text \<open>
  C2. Every hypothesis of the returned list has two non-empty token lists that end with
  eos and are longer than the minimum lengths of the call that produced the list: the
  call's own ratios when the fallback was not taken (\<open>k = 0\<close>), and the ratios relaxed
  \<open>k\<close> times when it was taken \<open>k\<close> times.
\<close>

theorem result_streams_ended:
  assumes "recognize_and_translate_sum d m dec ed y y_asr T rnnlm ta kw = Inr (\<sigma>, res)"
  shows "\<exists>k<d. (k = 0 \<or> (\<exists>s. run_search m dec ed y y_asr T rnnlm ta kw = Inr s
                           \<and> nbest_hyps ta (ended_hyps s) = []))
           \<and> (\<forall>h\<in>set res.
                 tokens_st \<sigma> h \<noteq> [] \<and> last (tokens_st \<sigma> h) = eos m
               \<and> tokens_asr \<sigma> h \<noteq> [] \<and> last (tokens_asr \<sigma> h) = eos m
               \<and> min_len (minlenratio ((relax ^^ k) ta)) T < int (length (tokens_st \<sigma> h))
               \<and> min_len (minlenratio_asr ((relax ^^ k) ta)) T < int (length (tokens_asr \<sigma> h)))"
  using assms
proof (induction d arbitrary: ta kw)
  case 0
  then show ?case by simp
next
  case (Suc d)
  from Suc.prems obtain s where rs: "run_search m dec ed y y_asr T rnnlm ta kw = Inr s"
    by (auto split: sum.splits)
  show ?case
  proof (cases "nbest_hyps ta (ended_hyps s) = []")
    case True
    with Suc.prems rs
    have "recognize_and_translate_sum d m dec ed y y_asr T rnnlm (relax ta) default_kwargs
            = Inr (\<sigma>, res)" by simp
    from Suc.IH [OF this] obtain k where k: "k < d"
      "\<forall>h\<in>set res.
                 tokens_st \<sigma> h \<noteq> [] \<and> last (tokens_st \<sigma> h) = eos m
               \<and> tokens_asr \<sigma> h \<noteq> [] \<and> last (tokens_asr \<sigma> h) = eos m
               \<and> min_len (minlenratio ((relax ^^ k) (relax ta))) T < int (length (tokens_st \<sigma> h))
               \<and> min_len (minlenratio_asr ((relax ^^ k) (relax ta))) T
                   < int (length (tokens_asr \<sigma> h))"
      by blast
    have "(relax ^^ k) (relax ta) = (relax ^^ Suc k) ta" by (simp add: funpow_swap1)
    with k rs True show ?thesis by (intro exI [of _ "Suc k"]) auto
  next
    case False
    with Suc.prems rs have eq: "res = nbest_hyps ta (ended_hyps s)" "\<sigma> = heap s" by simp_all
    note p = run_search_props [OF rs]
    have "\<forall>h\<in>set res.
                 tokens_st \<sigma> h \<noteq> [] \<and> last (tokens_st \<sigma> h) = eos m
               \<and> tokens_asr \<sigma> h \<noteq> [] \<and> last (tokens_asr \<sigma> h) = eos m
               \<and> min_len (minlenratio ta) T < int (length (tokens_st \<sigma> h))
               \<and> min_len (minlenratio_asr ta) T < int (length (tokens_asr \<sigma> h))"
    proof
      fix h assume "h \<in> set res"
      with eq nbest_hyps_props(3) [of ta "ended_hyps s"] have hin: "h \<in> set (ended_hyps s)" by auto
      with p have ok: "ended_ok m \<sigma> h" "nonempty_lists \<sigma>"
        and le: "long_enough (min_len (minlenratio ta) T) (min_len (minlenratio_asr ta) T) \<sigma> h"
        by (auto simp: wf_state_def list_all_iff eq)
      from ok have "\<sigma> ! yseq h \<in> set \<sigma>" "\<sigma> ! yseq_asr h \<in> set \<sigma>"
        by (simp_all add: ended_ok_def valid_hyp_def)
      with ok(2) have "\<sigma> ! yseq h \<noteq> []" "\<sigma> ! yseq_asr h \<noteq> []"
        by (auto simp: nonempty_lists_def list_all_iff)
      with ok(1) le
      show "tokens_st \<sigma> h \<noteq> [] \<and> last (tokens_st \<sigma> h) = eos m
               \<and> tokens_asr \<sigma> h \<noteq> [] \<and> last (tokens_asr \<sigma> h) = eos m
               \<and> min_len (minlenratio ta) T < int (length (tokens_st \<sigma> h))
               \<and> min_len (minlenratio_asr ta) T < int (length (tokens_asr \<sigma> h))"
        by (simp add: tokens_st_def tokens_asr_def ended_ok_def both_eos_def long_enough_def)
    qed
    then show ?thesis by (intro exI [of _ 0]) simp
  qed
qed

theorem result_streams_ended_witness:
  "\<exists>k<2. (k = 0 \<or> (\<exists>s. run_search ex_model eos_decoder never_end 2 2 1 False fb_args
                             st_diverse_kwargs = Inr s
                           \<and> nbest_hyps fb_args (ended_hyps s) = []))
     \<and> (\<forall>h\<in>set [\<lparr>score = - 2, yseq = 2, yseq_asr = 3\<rparr>, \<lparr>score = - 3, yseq = 4, yseq_asr = 5\<rparr>].
           tokens_st [[2], [2], [2, 2], [2, 2], [2, 2], [2, 1, 2]] h \<noteq> []
         \<and> last (tokens_st [[2], [2], [2, 2], [2, 2], [2, 2], [2, 1, 2]] h) = eos ex_model
         \<and> tokens_asr [[2], [2], [2, 2], [2, 2], [2, 2], [2, 1, 2]] h \<noteq> []
         \<and> last (tokens_asr [[2], [2], [2, 2], [2, 2], [2, 2], [2, 1, 2]] h) = eos ex_model
         \<and> min_len (minlenratio ((relax ^^ k) fb_args)) 1
             < int (length (tokens_st [[2], [2], [2, 2], [2, 2], [2, 2], [2, 1, 2]] h))
         \<and> min_len (minlenratio_asr ((relax ^^ k) fb_args)) 1
             < int (length (tokens_asr [[2], [2], [2, 2], [2, 2], [2, 2], [2, 1, 2]] h)))"
proof -
  have run: "recognize_and_translate_sum 2 ex_model eos_decoder never_end 2 2 1 False fb_args
      st_diverse_kwargs =
    Inr ([[2], [2], [2, 2], [2, 2], [2, 2], [2, 1, 2]],
         [\<lparr>score = - 2, yseq = 2, yseq_asr = 3\<rparr>, \<lparr>score = - 3, yseq = 4, yseq_asr = 5\<rparr>])"
    by code_simp
  from result_streams_ended [OF run] show ?thesis .
qed

subsection \<open>Self-mask sizes\<close>

text \<open>
  C5 (as amended). At step \<open>i\<close> the self-mask of the ST stream has size \<open>1\<close> while
  \<open>i < wait_k_asr\<close> (not \<open>i\<close>), size \<open>i - wait_k_asr + 1\<close> from \<open>i = wait_k_asr\<close> on, and
  size \<open>i + 1\<close> when \<open>wait_k_asr\<close> is \<open>0\<close>; the self-mask of the ASR stream follows the
  same rule with \<open>wait_k_st\<close>.
\<close>

theorem self_mask_len_cases:
  "(0 < wait_k_asr m \<and> int i < wait_k_asr m \<longrightarrow> ys_mask_len m i = 1)
   \<and> (0 < wait_k_asr m \<and> wait_k_asr m \<le> int i \<longrightarrow> ys_mask_len m i = int i - wait_k_asr m + 1)
   \<and> (wait_k_asr m = 0 \<longrightarrow> ys_mask_len m i = int i + 1)
   \<and> (0 < wait_k_st m \<and> int i < wait_k_st m \<longrightarrow> ys_mask_asr_len m i = 1)
   \<and> (0 < wait_k_st m \<and> wait_k_st m \<le> int i \<longrightarrow> ys_mask_asr_len m i = int i - wait_k_st m + 1)
   \<and> (wait_k_st m = 0 \<longrightarrow> ys_mask_asr_len m i = int i + 1)"
  by (simp add: ys_mask_len_def ys_mask_asr_len_def self_mask_len_def)

theorem self_mask_len_cases_witness:
  "ys_mask_len lag_model 0 = 1 \<and> ys_mask_len lag_model 1 = 1 \<and> ys_mask_len lag_model 2 = 1
   \<and> ys_mask_len lag_model 5 = 4 \<and> ys_mask_asr_len lag_model 5 = 6
   \<and> ys_mask_asr_len lag_st_model 2 = 1 \<and> ys_mask_asr_len lag_st_model 3 = 1
   \<and> ys_mask_len lag_st_model 3 = 4"
  using self_mask_len_cases [of lag_model 0] self_mask_len_cases [of lag_model 1]
    self_mask_len_cases [of lag_model 2] self_mask_len_cases [of lag_model 5]
    self_mask_len_cases [of lag_st_model 2] self_mask_len_cases [of lag_st_model 3]
  by (simp add: lag_model_def lag_st_model_def ex_model_def)

theorem self_mask_len_counterexample:
  "ys_mask_len lag_model 0 = 1 \<and> \<not> ys_mask_len lag_model 0 \<le> int 0
   \<and> ys_mask_len (ex_model\<lparr>wait_k_asr := 5\<rparr>) 3 = 1
   \<and> \<not> ys_mask_len (ex_model\<lparr>wait_k_asr := 5\<rparr>) 3 = int 3
   \<and> \<not> int 3 \<le> ys_mask_len (ex_model\<lparr>wait_k_asr := 5\<rparr>) 3"
  by (simp add: ys_mask_len_def self_mask_len_def lag_model_def ex_model_def)

subsection \<open>Diversity forcing\<close>

lemma py_int_mono: "a \<le> b \<Longrightarrow> py_int a \<le> py_int b"
  unfolding py_int_def
  by (auto intro: floor_mono ceiling_mono) (smt (verit) ceiling_le_zero zero_le_floor)

lemma diverse_ct_mono:
  assumes "0 \<le> beam" and "r1 \<le> r2"
  shows "diverse_ct beam r2 \<le> diverse_ct beam r1"
proof -
  have "(1 - r2) * real_of_int beam \<le> (1 - r1) * real_of_int beam"
    using assms by (intro mult_right_mono) simp_all
  then show ?thesis unfolding diverse_ct_def by (rule py_int_mono)
qed

lemma topk_props:
  assumes "topk k xs = Inr r"
  shows "length r = nat k" and "\<forall>p\<in>set r. snd p < length xs" and "0 \<le> k"
proof -
  from assms have k: "0 \<le> k" "k \<le> int (length xs)"
    and r: "r = take (nat k) (sort_key (\<lambda>p. - fst p) (zip xs [0..<length xs]))"
    by (auto simp: topk_def split: if_splits)
  from k r show "length r = nat k" by simp
  show "0 \<le> k" by fact
  have "set r \<subseteq> set (zip xs [0..<length xs])"
    using r by (auto dest: in_set_takeD)
  then show "\<forall>p\<in>set r. snd p < length xs"
    by (auto dest!: set_zip_rightD)
qed

lemma concat_rows_nth:
  assumes "k < length xs * length ys"
  shows "concat (map (\<lambda>x. map (f x) ys) xs) ! k
           = f (xs ! (k div length ys)) (ys ! (k mod length ys))"
  using assms
proof (induction xs arbitrary: k)
  case Nil
  then show ?case by simp
next
  case (Cons x xs)
  have pos: "0 < length ys" using Cons.prems by (cases ys) simp_all
  show ?case
  proof (cases "k < length ys")
    case True
    then show ?thesis by (simp add: nth_append)
  next
    case False
    then have ge: "length ys \<le> k" by simp
    with Cons.prems have lt: "k - length ys < length xs * length ys" by simp
    from ge pos have d: "k div length ys = Suc ((k - length ys) div length ys)"
      by (simp add: le_div_geq)
    from ge have mo: "k mod length ys = (k - length ys) mod length ys"
      by (simp add: le_mod_geq)
    from False Cons.IH [OF lt] show ?thesis by (simp add: nth_append d mo)
  qed
qed

lemma select_joint_unrestricted:
  assumes "r_st \<le> 0" and "r_asr \<le> 0" and "1 \<le> beam"
  shows "select_joint beam r_st r_asr las las_a = unrestricted_joint_topk beam las las_a"
proof (cases "topk beam las")
  case (Inl e)
  then show ?thesis by (simp add: select_joint_def unrestricted_joint_topk_def)
next
  case xk: (Inr xk)
  show ?thesis
  proof (cases "topk beam las_a")
    case (Inl e)
    with xk show ?thesis by (simp add: select_joint_def unrestricted_joint_topk_def)
  next
    case yk: (Inr yk)
    let ?flat = "concat (map (\<lambda>x. map (\<lambda>y. fst x + fst y) yk) xk)"
    have S: "concat (outer_sum (map fst xk) (map fst yk)) = ?flat"
      by (simp add: outer_sum_def comp_def)
    have lx: "length xk = nat beam" and ly: "length yk = nat beam"
      using topk_props(1) [OF xk] topk_props(1) [OF yk] by simp_all
    show ?thesis
    proof (cases "topk beam ?flat")
      case (Inl e)
      with xk yk S assms show ?thesis
        by (simp add: select_joint_def unrestricted_joint_topk_def pick_def)
    next
      case r: (Inr r)
      have len: "length ?flat = length xk * length yk"
        by (induction xk) simp_all
      have ids: "\<And>k. k < length xk * length yk \<Longrightarrow>
          concat (s2v_rows (map snd xk) (map snd yk)) ! k
            = (snd (xk ! (k div nat beam)), snd (yk ! (k mod nat beam)))"
      proof -
        fix k assume k: "k < length xk * length yk"
        have "concat (s2v_rows (map snd xk) (map snd yk))
                = concat (map (\<lambda>x. map (\<lambda>y. (snd x, snd y)) yk) xk)"
          by (simp add: s2v_rows_def comp_def)
        with concat_rows_nth [OF k, of "\<lambda>x y. (snd x, snd y)"] ly
        show "concat (s2v_rows (map snd xk) (map snd yk)) ! k
            = (snd (xk ! (k div nat beam)), snd (yk ! (k mod nat beam)))" by simp
      qed
      have "map (\<lambda>(s, k). (s, Some (fst (concat (s2v_rows (map snd xk) (map snd yk)) ! k)),
                              Some (snd (concat (s2v_rows (map snd xk) (map snd yk)) ! k)))) r
          = map (\<lambda>(s, k). (s, Some (snd (xk ! (k div nat beam))),
                                 Some (snd (yk ! (k mod nat beam))))) r"
        using topk_props(2) [OF r] ids by (auto simp: len)
      moreover have "concat (s2v_rows (map snd xk) (map snd yk)) \<noteq> []"
      proof -
        have "length (concat (s2v_rows (map snd xk) (map snd yk))) = length xk * length yk"
          by (induction xk) (simp_all add: s2v_rows_def)
        moreover have "0 < length xk * length yk" using lx ly assms(3) by simp
        ultimately have "0 < length (concat (s2v_rows (map snd xk) (map snd yk)))"
          by (simp only:)
        then show ?thesis by simp
      qed
      ultimately show ?thesis using xk yk r S assms
        by (simp add: select_joint_def unrestricted_joint_topk_def pick_def Let_def)
    qed
  qed
qed

text \<open>
  C4 (as amended). For a fixed beam the retained span \<open>ct\<close> never grows when
  \<open>ratio_diverse_st\<close> grows, before and after the widening; it need not shrink
  strictly. With a beam of at least \<open>1\<close> and both ratios at most \<open>0\<close> the selection is
  the unrestricted joint top-k of the specification: same pairs, same scores, same
  order.
\<close>

theorem diversity_monotone_identity:
  "(0 \<le> beam \<and> r1 \<le> r2 \<longrightarrow> diverse_ct beam r2 \<le> diverse_ct beam r1)
   \<and> (0 \<le> beam \<and> r1 \<le> r2 \<and> widened_ct beam cr (diverse_ct beam r1) = Inr c1
        \<and> widened_ct beam cr (diverse_ct beam r2) = Inr c2 \<longrightarrow> c2 \<le> c1)
   \<and> (1 \<le> beam \<and> r_st \<le> 0 \<and> r_asr \<le> 0 \<longrightarrow>
        select_joint beam r_st r_asr las las_a = unrestricted_joint_topk beam las las_a)"
proof (intro conjI impI)
  assume "0 \<le> beam \<and> r1 \<le> r2"
  then show "diverse_ct beam r2 \<le> diverse_ct beam r1" by (simp add: diverse_ct_mono)
next
  assume a: "0 \<le> beam \<and> r1 \<le> r2 \<and> widened_ct beam cr (diverse_ct beam r1) = Inr c1
        \<and> widened_ct beam cr (diverse_ct beam r2) = Inr c2"
  then have "diverse_ct beam r2 \<le> diverse_ct beam r1" by (simp add: diverse_ct_mono)
  with a show "c2 \<le> c1" by (auto simp: widened_ct_def split: if_splits)
next
  assume "1 \<le> beam \<and> r_st \<le> 0 \<and> r_asr \<le> 0"
  then show "select_joint beam r_st r_asr las las_a = unrestricted_joint_topk beam las las_a"
    by (simp add: select_joint_unrestricted)
qed

theorem diversity_monotone_identity_witness:
  "(0::int) \<le> 10 \<and> (1 / 4 :: real) \<le> 1 / 2 \<and> diverse_ct 10 (1 / 2) \<le> diverse_ct 10 (1 / 4)
   \<and> widened_ct 10 3 (diverse_ct 10 (1 / 4)) = Inr 7
   \<and> widened_ct 10 3 (diverse_ct 10 (1 / 2)) = Inr 5 \<and> (5::int) \<le> 7
   \<and> select_joint 2 0 0 [- 1, - 3, - 2] [- 2, - 1, - 4]
       = unrestricted_joint_topk 2 [- 1, - 3, - 2] [- 2, - 1, - 4]
   \<and> unrestricted_joint_topk 2 [- 1, - 3, - 2] [- 2, - 1, - 4]
       = Inr [(- 2, Some 0, Some 1), (- 3, Some 0, Some 0)]"
proof -
  have u: "unrestricted_joint_topk 2 [- 1, - 3, - 2] [- 2, - 1, - 4]
       = Inr [(- 2, Some 0, Some 1), (- 3, Some 0, Some 0)]"
    by code_simp
  have w: "widened_ct 10 3 (diverse_ct 10 (1 / 4)) = Inr 7"
    "widened_ct 10 3 (diverse_ct 10 (1 / 2)) = Inr 5"
    by code_simp+
  from diversity_monotone_identity [where beam = 10 and ?r1.0 = "1 / 4" and ?r2.0 = "1 / 2"
      and cr = 3 and ?c1.0 = 7 and ?c2.0 = 5] w
  have a: "diverse_ct 10 (1 / 2) \<le> diverse_ct 10 (1 / 4) \<and> (5::int) \<le> 7" by simp
  from diversity_monotone_identity [where beam = 2 and r_st = 0 and r_asr = 0
      and las = "[- 1, - 3, - 2]" and las_a = "[- 2, - 1, - 4]"]
  have b: "select_joint 2 0 0 [- 1, - 3, - 2] [- 2, - 1, - 4]
       = unrestricted_joint_topk 2 [- 1, - 3, - 2] [- 2, - 1, - 4]" by simp
  from a b u w show ?thesis by simp
qed

theorem diversity_monotone_counterexample:
  "(1 / 4 :: real) < 1 / 2 \<and> diverse_ct 2 (1 / 4) = 1 \<and> diverse_ct 2 (1 / 2) = 1
   \<and> \<not> diverse_ct 2 (1 / 2) < diverse_ct 2 (1 / 4)"
  by code_simp

text \<open>
  C3. With both ratios positive the code widens \<open>ct\<close> to \<open>beam // cr\<close>, the floor of the
  quotient, not its ceiling. For beam \<open>7\<close> and the ratios \<open>0.5\<close> (ASR) and \<open>0.75\<close> (ST)
  the sub-matrix has \<open>3 \<times> 2 = 6\<close> entries and the top-\<open>7\<close> selection raises; for beam
  \<open>1\<close> the row span is \<open>0\<close> and the division raises.
\<close>

theorem widened_ct_undersized:
  "diverse_cr 7 (1 / 2) = 3 \<and> diverse_ct 7 (3 / 4) = 1
   \<and> widened_ct 7 (diverse_cr 7 (1 / 2)) (diverse_ct 7 (3 / 4)) = Inr 2
   \<and> \<lceil>7 / 3 :: real\<rceil> = 3
   \<and> select_joint 7 (3 / 4) (1 / 2) [0, - 1, - 2, - 3, - 4, - 5, - 6, - 7]
        [0, - 1, - 2, - 3, - 4, - 5, - 6, - 7] = Inl RuntimeError
   \<and> widened_ct 1 (diverse_cr 1 (1 / 2)) (diverse_ct 1 (1 / 2)) = Inl ZeroDivisionError"
  by code_simp

subsection \<open>End detection\<close>

text \<open>
  C7 (as amended). A step leaves the loop on end detection exactly when the predicate
  holds for the ended set and \<open>maxlenratio\<close> (the ST ratio) is \<open>0\<close>; the loop then
  returns the state of that step. \<open>maxlenratio_asr\<close> is not consulted.
\<close>

theorem end_detect_break:
  assumes "step m dec ed ta kw T i s = Inr (ex, s')"
  shows "(ex = Break_end_detect) = (ed (heap s') (ended_hyps s') i \<and> maxlenratio ta = 0)
         \<and> (ex = Break_end_detect \<longrightarrow> search_loop m dec ed ta kw T (Suc n) i s = Inr s')"
  using assms
  by (auto simp: step_def Let_def split: sum.splits if_splits prod.splits)

theorem end_detect_break_witness:
  "step ex_model ex_decoder always_end ex_args default_kwargs 4 0 (init_state 2 2)
     = Inr (Break_end_detect,
         \<lparr>heap = [[2], [2], [2, 0], [2, 0], [2, 0], [2, 1]],
          hyps = [\<lparr>score = - 2, yseq = 2, yseq_asr = 3\<rparr>, \<lparr>score = - 3, yseq = 4, yseq_asr = 5\<rparr>],
          ended_hyps = [], local_att_scores = Some (Some [- 1, - 2, - 3]),
          local_att_scores_asr = Some (Some [- 1, - 2, - 3])\<rparr>)
   \<and> always_end [[2], [2], [2, 0], [2, 0], [2, 0], [2, 1]] [] 0 \<and> maxlenratio ex_args = 0
   \<and> search_loop ex_model ex_decoder always_end ex_args default_kwargs 4 (Suc 3) 0 (init_state 2 2)
     = Inr \<lparr>heap = [[2], [2], [2, 0], [2, 0], [2, 0], [2, 1]],
          hyps = [\<lparr>score = - 2, yseq = 2, yseq_asr = 3\<rparr>, \<lparr>score = - 3, yseq = 4, yseq_asr = 5\<rparr>],
          ended_hyps = [], local_att_scores = Some (Some [- 1, - 2, - 3]),
          local_att_scores_asr = Some (Some [- 1, - 2, - 3])\<rparr>"
proof -
  have st: "step ex_model ex_decoder always_end ex_args default_kwargs 4 0 (init_state 2 2)
     = Inr (Break_end_detect,
         \<lparr>heap = [[2], [2], [2, 0], [2, 0], [2, 0], [2, 1]],
          hyps = [\<lparr>score = - 2, yseq = 2, yseq_asr = 3\<rparr>, \<lparr>score = - 3, yseq = 4, yseq_asr = 5\<rparr>],
          ended_hyps = [], local_att_scores = Some (Some [- 1, - 2, - 3]),
          local_att_scores_asr = Some (Some [- 1, - 2, - 3])\<rparr>)"
    by code_simp
  from end_detect_break [OF st, of 3] st show ?thesis by simp
qed

theorem end_detect_break_counterexample:
  "maxlenratio_asr asr_ratio_args \<noteq> 0
   \<and> map_sum id fst (step ex_model ex_decoder always_end asr_ratio_args default_kwargs 4 0
        (init_state 2 2)) = Inr Break_end_detect
   \<and> n_steps asr_ratio_args 4 = 4
   \<and> map_sum id hyps (search_loop ex_model ex_decoder always_end asr_ratio_args default_kwargs 4
        (n_steps asr_ratio_args 4) 0 (init_state 2 2))
       = Inr [\<lparr>score = - 2, yseq = 2, yseq_asr = 3\<rparr>, \<lparr>score = - 3, yseq = 4, yseq_asr = 5\<rparr>]"
  by code_simp

subsection \<open>The fallback\<close>

lemma nbest_hyps_empty: "1 \<le> nbest ta \<Longrightarrow> (nbest_hyps ta ended = []) = (ended = [])"
  by (cases ended) (auto simp: nbest_hyps_def py_take_def sorted_desc_def min_def take_Suc_conv_app_nth)

text \<open>
  C9. With \<open>nbest\<close> at least \<open>1\<close>: when the loop ends with an empty ended set the call
  is the recursive call with both minimum-length ratios lowered by \<open>0.1\<close> (not below
  \<open>0\<close>), and when the ended set is not empty the call returns its n-best list without
  retrying.
\<close>

theorem fallback_retry:
  assumes "run_search m dec ed y y_asr T rnnlm ta kw = Inr s" and "1 \<le> nbest ta"
  shows "(ended_hyps s = [] \<longrightarrow>
            recognize_and_translate_sum (Suc d) m dec ed y y_asr T rnnlm ta kw
            = recognize_and_translate_sum d m dec ed y y_asr T rnnlm
                (ta\<lparr>minlenratio := max 0 (minlenratio ta - 1 / 10),
                    minlenratio_asr := max 0 (minlenratio_asr ta - 1 / 10)\<rparr>) default_kwargs)
       \<and> (ended_hyps s \<noteq> [] \<longrightarrow>
            recognize_and_translate_sum (Suc d) m dec ed y y_asr T rnnlm ta kw
            = Inr (heap s, nbest_hyps ta (ended_hyps s))
            \<and> nbest_hyps ta (ended_hyps s) \<noteq> [])"
  using assms nbest_hyps_empty [OF assms(2), of "ended_hyps s"]
    nbest_hyps_empty [OF assms(2), of "[]"]
  by (auto simp: relax_def)

theorem fallback_retry_witness:
  "1 \<le> nbest fb_args
   \<and> map_sum id ended_hyps
       (run_search ex_model eos_decoder never_end 2 2 1 False fb_args st_diverse_kwargs) = Inr []
   \<and> recognize_and_translate_sum (Suc 1) ex_model eos_decoder never_end 2 2 1 False fb_args
       st_diverse_kwargs
     = recognize_and_translate_sum 1 ex_model eos_decoder never_end 2 2 1 False
         (fb_args\<lparr>minlenratio := max 0 (minlenratio fb_args - 1 / 10),
                   minlenratio_asr := max 0 (minlenratio_asr fb_args - 1 / 10)\<rparr>) default_kwargs
   \<and> map_sum id ended_hyps
       (run_search ex_model eos_decoder never_end 2 2 1 False ex_args default_kwargs)
     = Inr [\<lparr>score = - 2, yseq = 2, yseq_asr = 3\<rparr>, \<lparr>score = - 3, yseq = 4, yseq_asr = 5\<rparr>]
   \<and> recognize_and_translate_sum (Suc 1) ex_model eos_decoder never_end 2 2 1 False ex_args
       default_kwargs
     = Inr ([[2], [2], [2, 2], [2, 2], [2, 2], [2, 1, 2]],
            [\<lparr>score = - 2, yseq = 2, yseq_asr = 3\<rparr>, \<lparr>score = - 3, yseq = 4, yseq_asr = 5\<rparr>])"
proof -
  have nb: "1 \<le> nbest fb_args" "1 \<le> nbest ex_args" by (simp_all add: fb_args_def ex_args_def)
  have r1: "run_search ex_model eos_decoder never_end 2 2 1 False fb_args st_diverse_kwargs
      = Inr \<lparr>heap = [[2], [2], [2, 2], [2, 2], [2, 1, 2], [2, 2]], hyps = [],
        ended_hyps = [], local_att_scores = Some (Some [- 3, - 2, - 1]),
        local_att_scores_asr = Some (Some [- 3, - 2, - 1])\<rparr>"
    by code_simp
  have r2: "run_search ex_model eos_decoder never_end 2 2 1 False ex_args default_kwargs
      = Inr \<lparr>heap = [[2], [2], [2, 2], [2, 2], [2, 2], [2, 1, 2]], hyps = [],
        ended_hyps = [\<lparr>score = - 2, yseq = 2, yseq_asr = 3\<rparr>, \<lparr>score = - 3, yseq = 4, yseq_asr = 5\<rparr>],
        local_att_scores = Some (Some [- 3, - 2, - 1]),
        local_att_scores_asr = Some (Some [- 3, - 2, - 1])\<rparr>"
    by code_simp
  have n2: "nbest_hyps ex_args
       [\<lparr>score = - 2, yseq = 2, yseq_asr = 3\<rparr>, \<lparr>score = - 3, yseq = 4, yseq_asr = 5\<rparr>]
     = [\<lparr>score = - 2, yseq = 2, yseq_asr = 3\<rparr>, \<lparr>score = - 3, yseq = 4, yseq_asr = 5\<rparr>]"
    by code_simp
  from fallback_retry [OF r1 nb(1), of 1] fallback_retry [OF r2 nb(2), of 1] nb(1) n2
  show ?thesis unfolding r1 r2 by simp
qed

text \<open>
  C10. On the fallback the recursive call runs with the default keyword arguments,
  whatever the caller passed (no diversity forcing, ASR weight \<open>1\<close>), and with
  \<open>trans_args\<close> changed in the two minimum-length ratios only.
\<close>

theorem fallback_resets_kwargs:
  assumes "run_search m dec ed y y_asr T rnnlm ta kw = Inr s"
    and "nbest_hyps ta (ended_hyps s) = []"
  shows "recognize_and_translate_sum (Suc d) m dec ed y y_asr T rnnlm ta kw
           = recognize_and_translate_sum d m dec ed y y_asr T rnnlm (relax ta) default_kwargs
       \<and> ratio_diverse_st default_kwargs = 0 \<and> ratio_diverse_asr default_kwargs = 0
       \<and> decode_asr_weight default_kwargs = 1 \<and> \<not> use_jit default_kwargs
       \<and> \<not> score_is_prob default_kwargs \<and> \<not> debug default_kwargs
       \<and> beam_size (relax ta) = beam_size ta \<and> penalty (relax ta) = penalty ta
       \<and> nbest (relax ta) = nbest ta \<and> maxlenratio (relax ta) = maxlenratio ta
       \<and> maxlenratio_asr (relax ta) = maxlenratio_asr ta
       \<and> minlenratio (relax ta) = max 0 (minlenratio ta - 1 / 10)
       \<and> minlenratio_asr (relax ta) = max 0 (minlenratio_asr ta - 1 / 10)"
  using assms by (simp add: default_kwargs_def) (simp add: relax_def)

theorem fallback_resets_kwargs_witness:
  "recognize_and_translate_sum (Suc 1) ex_model eos_decoder never_end 2 2 1 False fb_args
       st_diverse_kwargs
     = recognize_and_translate_sum 1 ex_model eos_decoder never_end 2 2 1 False (relax fb_args)
         default_kwargs
   \<and> ratio_diverse_st st_diverse_kwargs = 1 / 2 \<and> decode_asr_weight st_diverse_kwargs = 1 / 2
   \<and> recognize_and_translate_sum 1 ex_model eos_decoder never_end 2 2 1 False (relax fb_args)
         default_kwargs
     = Inr ([[2], [2], [2, 2], [2, 2], [2, 2], [2, 1, 2]],
            [\<lparr>score = - 2, yseq = 2, yseq_asr = 3\<rparr>, \<lparr>score = - 3, yseq = 4, yseq_asr = 5\<rparr>])
   \<and> recognize_and_translate_sum 1 ex_model eos_decoder never_end 2 2 1 False (relax fb_args)
         st_diverse_kwargs
     = Inr ([[2], [2], [2, 2], [2, 2], [2, 1, 2], [2, 2]],
            [\<lparr>score = - 2, yseq = 2, yseq_asr = 3\<rparr>, \<lparr>score = - 3, yseq = 4, yseq_asr = 5\<rparr>])"
proof -
  have r1: "run_search ex_model eos_decoder never_end 2 2 1 False fb_args st_diverse_kwargs
      = Inr \<lparr>heap = [[2], [2], [2, 2], [2, 2], [2, 1, 2], [2, 2]], hyps = [],
        ended_hyps = [], local_att_scores = Some (Some [- 3, - 2, - 1]),
        local_att_scores_asr = Some (Some [- 3, - 2, - 1])\<rparr>"
    by code_simp
  have e1: "nbest_hyps fb_args (ended_hyps \<lparr>heap = [[2], [2], [2, 2], [2, 2], [2, 1, 2], [2, 2]],
        hyps = [], ended_hyps = [], local_att_scores = Some (Some [- 3, - 2, - 1]),
        local_att_scores_asr = Some (Some [- 3, - 2, - 1])\<rparr>) = []"
    by code_simp
  have k: "ratio_diverse_st st_diverse_kwargs = 1 / 2 \<and> decode_asr_weight st_diverse_kwargs = 1 / 2"
    by (simp add: st_diverse_kwargs_def)
  have d: "recognize_and_translate_sum 1 ex_model eos_decoder never_end 2 2 1 False (relax fb_args)
         default_kwargs
     = Inr ([[2], [2], [2, 2], [2, 2], [2, 2], [2, 1, 2]],
            [\<lparr>score = - 2, yseq = 2, yseq_asr = 3\<rparr>, \<lparr>score = - 3, yseq = 4, yseq_asr = 5\<rparr>])"
    by code_simp
  have p: "recognize_and_translate_sum 1 ex_model eos_decoder never_end 2 2 1 False (relax fb_args)
         st_diverse_kwargs
     = Inr ([[2], [2], [2, 2], [2, 2], [2, 1, 2], [2, 2]],
            [\<lparr>score = - 2, yseq = 2, yseq_asr = 3\<rparr>, \<lparr>score = - 3, yseq = 4, yseq_asr = 5\<rparr>])"
    by code_simp
  from fallback_resets_kwargs [OF r1 e1, of 1] have
    "recognize_and_translate_sum (Suc 1) ex_model eos_decoder never_end 2 2 1 False fb_args
       st_diverse_kwargs
     = recognize_and_translate_sum 1 ex_model eos_decoder never_end 2 2 1 False (relax fb_args)
         default_kwargs" by (rule conjunct1)
  with k d p show ?thesis by (simp only: simp_thms)
qed

subsection \<open>What a step does to the token lists\<close>

lemma extends_refl: "extends \<sigma> \<sigma>"
  by (simp add: extends_def)

lemma extends_trans: "extends \<sigma> \<sigma>' \<Longrightarrow> extends \<sigma>' \<sigma>'' \<Longrightarrow> extends \<sigma> \<sigma>''"
  unfolding extends_def by (metis le_trans less_le_trans)

lemma extends_append: "extends \<sigma> (\<sigma> @ [xs])"
  by (simp add: extends_def nth_append)

lemma extends_nth: "extends \<sigma> \<sigma>' \<Longrightarrow> a < length \<sigma> \<Longrightarrow> \<sigma>' ! a = \<sigma> ! a"
  by (simp add: extends_def)

lemma extends_valid: "extends \<sigma> \<sigma>' \<Longrightarrow> valid_hyp \<sigma> h \<Longrightarrow> valid_hyp \<sigma>' h"
  by (auto simp: extends_def intro: valid_hyp_mono)

lemma step_scores_ended:
  assumes "step_scores m dec jit i ys ys_a prev = Inr (a, b)"
  shows "(last ys = eos m \<and> 2 < i \<longrightarrow> a = Some None)
       \<and> (last ys_a = eos m \<and> 2 < i \<longrightarrow> b = Some None)"
  using assms by (auto simp: step_scores_def split: if_splits sum.splits prod.splits)

lemma select_cands_tokens:
  assumes "select_cands beam r_st r_asr a b = Inr cs" and "c \<in> set cs"
  shows "(a = Some None \<longrightarrow> fst (snd c) = None) \<and> (b = Some None \<longrightarrow> snd (snd c) = None)"
  using assms
  by (auto simp: select_cands_def split: option.splits sum.splits)

lemma new_stream_content:
  assumes "new_stream e wk i a tok \<sigma> = (\<sigma>', a')" and "a < length \<sigma>"
  shows "extends \<sigma> \<sigma>'" and "a' < length \<sigma>'"
    and "\<sigma>' ! a' = stream_after e wk i (\<sigma> ! a) tok"
  using assms
  by (auto simp: new_stream_def alloc_def stream_after_def extends_append extends_refl
      split: option.splits if_splits)

lemma new_hyp_content:
  assumes "new_hyp m i h (sc, t_st, t_asr) \<sigma> = (\<sigma>', n)" and "valid_hyp \<sigma> h"
  shows "extends \<sigma> \<sigma>'" and "valid_hyp \<sigma>' n" and "score n = score h + sc"
    and "\<sigma>' ! yseq n = stream_after (eos m) (wait_k_asr m) i (\<sigma> ! yseq h) t_st"
    and "\<sigma>' ! yseq_asr n = stream_after (eos m) (wait_k_st m) i (\<sigma> ! yseq_asr h) t_asr"
proof -
  obtain \<sigma>1 a1 where s1: "new_stream (eos m) (wait_k_asr m) i (yseq h) t_st \<sigma> = (\<sigma>1, a1)"
    by (cases "new_stream (eos m) (wait_k_asr m) i (yseq h) t_st \<sigma>")
  obtain \<sigma>2 a2 where s2: "new_stream (eos m) (wait_k_st m) i (yseq_asr h) t_asr \<sigma>1 = (\<sigma>2, a2)"
    by (cases "new_stream (eos m) (wait_k_st m) i (yseq_asr h) t_asr \<sigma>1")
  from assms(1) s1 s2 have eq: "\<sigma>' = \<sigma>2" "n = \<lparr>score = score h + sc, yseq = a1, yseq_asr = a2\<rparr>"
    by (simp_all add: new_hyp_def)
  from assms(2) have v: "yseq h < length \<sigma>" "yseq_asr h < length \<sigma>"
    by (simp_all add: valid_hyp_def)
  note p1 = new_stream_content [OF s1 v(1)]
  from p1(1) v(2) have v2: "yseq_asr h < length \<sigma>1" by (simp add: extends_def)
  note p2 = new_stream_content [OF s2 v2]
  show "extends \<sigma> \<sigma>'" using p1(1) p2(1) eq by (auto intro: extends_trans)
  from p2(1) p1(2) have a1: "a1 < length \<sigma>2" by (simp add: extends_def)
  then show "valid_hyp \<sigma>' n" using p2(2) eq by (simp add: valid_hyp_def)
  show "score n = score h + sc" using eq by simp
  show "\<sigma>' ! yseq n = stream_after (eos m) (wait_k_asr m) i (\<sigma> ! yseq h) t_st"
    using eq p1(3) extends_nth [OF p2(1) p1(2)] by simp
  show "\<sigma>' ! yseq_asr n = stream_after (eos m) (wait_k_st m) i (\<sigma> ! yseq_asr h) t_asr"
    using eq p2(3) extends_nth [OF p1(1) v(2)] by simp
qed

lemma child_of_extends:
  assumes "child_of m i \<sigma>0 p \<sigma> n" and "valid_hyp \<sigma> n" and "extends \<sigma> \<sigma>'"
  shows "child_of m i \<sigma>0 p \<sigma>' n"
proof -
  from assms(2,3) have "\<sigma>' ! yseq n = \<sigma> ! yseq n" "\<sigma>' ! yseq_asr n = \<sigma> ! yseq_asr n"
    by (simp_all add: valid_hyp_def extends_nth)
  with assms(1) show ?thesis by (simp add: child_of_def)
qed

lemma expand_children:
  assumes "expand m beam i h cs (\<sigma>, kept) = (\<sigma>', kept')"
    and "extends \<sigma>0 \<sigma>" and "valid_hyp \<sigma>0 h" and "h \<in> P" and "cands_ok m i \<sigma>0 h cs"
    and "list_all (\<lambda>n. valid_hyp \<sigma> n \<and> (\<exists>p\<in>P. child_of m i \<sigma>0 p \<sigma> n)) kept"
  shows "extends \<sigma>0 \<sigma>'
       \<and> list_all (\<lambda>n. valid_hyp \<sigma>' n \<and> (\<exists>p\<in>P. child_of m i \<sigma>0 p \<sigma>' n)) kept'"
  using assms
proof (induction cs arbitrary: \<sigma> kept)
  case Nil
  then show ?case by simp
next
  case (Cons c cs)
  obtain sc t_st t_asr where c: "c = (sc, t_st, t_asr)" by (cases c)
  obtain \<sigma>1 n where nh: "new_hyp m i h (sc, t_st, t_asr) \<sigma> = (\<sigma>1, n)"
    by (cases "new_hyp m i h (sc, t_st, t_asr) \<sigma>")
  have vh: "valid_hyp \<sigma> h" using Cons.prems(2,3) by (rule extends_valid)
  note p = new_hyp_content [OF nh vh]
  from Cons.prems(3) Cons.prems(2)
  have same: "\<sigma> ! yseq h = \<sigma>0 ! yseq h" "\<sigma> ! yseq_asr h = \<sigma>0 ! yseq_asr h"
    by (simp_all add: valid_hyp_def extends_nth)
  from Cons.prems(5) c
  have tok: "last (\<sigma>0 ! yseq h) = eos m \<and> 2 < i \<longrightarrow> t_st = None"
    "last (\<sigma>0 ! yseq_asr h) = eos m \<and> 2 < i \<longrightarrow> t_asr = None"
    by (simp_all add: cands_ok_def)
  have ch: "child_of m i \<sigma>0 h \<sigma>1 n"
    unfolding child_of_def using p(4,5) same tok by auto
  let ?k = "py_take beam (sorted_desc (kept @ [n]))"
  from Cons.prems(1) nh c have ex: "expand m beam i h cs (\<sigma>1, ?k) = (\<sigma>', kept')" by simp
  have e01: "extends \<sigma>0 \<sigma>1" using Cons.prems(2) p(1) by (rule extends_trans)
  have old: "\<forall>x\<in>set kept. valid_hyp \<sigma>1 x \<and> (\<exists>p\<in>P. child_of m i \<sigma>0 p \<sigma>1 x)"
  proof
    fix x assume "x \<in> set kept"
    with Cons.prems(6) obtain q where q: "valid_hyp \<sigma> x" "q \<in> P" "child_of m i \<sigma>0 q \<sigma> x"
      by (auto simp: list_all_iff)
    from child_of_extends [OF q(3) q(1) p(1)] extends_valid [OF p(1) q(1)] q(2)
    show "valid_hyp \<sigma>1 x \<and> (\<exists>p\<in>P. child_of m i \<sigma>0 p \<sigma>1 x)" by blast
  qed
  have "list_all (\<lambda>n. valid_hyp \<sigma>1 n \<and> (\<exists>p\<in>P. child_of m i \<sigma>0 p \<sigma>1 n)) (kept @ [n])"
    using old p(2) ch Cons.prems(4) by (auto simp: list_all_iff)
  then have k: "list_all (\<lambda>n. valid_hyp \<sigma>1 n \<and> (\<exists>p\<in>P. child_of m i \<sigma>0 p \<sigma>1 n)) ?k"
    using set_py_take [of beam "sorted_desc (kept @ [n])"]
    by (auto simp: list_all_iff set_sorted_desc)
  have co: "cands_ok m i \<sigma>0 h cs" using Cons.prems(5) by (simp add: cands_ok_def)
  from Cons.IH [OF ex e01 Cons.prems(3) Cons.prems(4) co k] show ?case .
qed

lemma expand_all_children:
  assumes "expand_all m dec kw beam i hs vars (\<sigma>, kept) = Inr (vars', \<sigma>', kept')"
    and "extends \<sigma>0 \<sigma>" and "list_all (valid_hyp \<sigma>0) hs" and "set hs \<subseteq> P"
    and "list_all (\<lambda>n. valid_hyp \<sigma> n \<and> (\<exists>p\<in>P. child_of m i \<sigma>0 p \<sigma> n)) kept"
  shows "extends \<sigma>0 \<sigma>'
       \<and> list_all (\<lambda>n. valid_hyp \<sigma>' n \<and> (\<exists>p\<in>P. child_of m i \<sigma>0 p \<sigma>' n)) kept'"
  using assms
proof (induction hs arbitrary: \<sigma> kept vars)
  case Nil
  then show ?case by simp
next
  case (Cons h hs)
  from Cons.prems(1) obtain a b cs where
    sc: "step_scores m dec (use_jit kw) i (\<sigma> ! yseq h) (\<sigma> ! yseq_asr h) vars = Inr (a, b)"
    and sel: "select_cands beam (ratio_diverse_st kw) (ratio_diverse_asr kw) a b = Inr cs"
    and rest: "expand_all m dec kw beam i hs (a, b) (expand m beam i h cs (\<sigma>, kept))
                 = Inr (vars', \<sigma>', kept')"
    by (auto split: sum.splits)
  obtain \<sigma>1 k1 where e1: "expand m beam i h cs (\<sigma>, kept) = (\<sigma>1, k1)"
    by (cases "expand m beam i h cs (\<sigma>, kept)")
  from Cons.prems(3) have vh: "valid_hyp \<sigma>0 h" and vhs: "list_all (valid_hyp \<sigma>0) hs"
    by simp_all
  from vh Cons.prems(2)
  have same: "\<sigma> ! yseq h = \<sigma>0 ! yseq h" "\<sigma> ! yseq_asr h = \<sigma>0 ! yseq_asr h"
    by (simp_all add: valid_hyp_def extends_nth)
  have co: "cands_ok m i \<sigma>0 h cs"
    unfolding cands_ok_def
    using step_scores_ended [OF sc] select_cands_tokens [OF sel] same by auto
  from Cons.prems(4) have hP: "h \<in> P" and hsP: "set hs \<subseteq> P" by simp_all
  from expand_children [OF e1 Cons.prems(2) vh hP co Cons.prems(5)]
  have p: "extends \<sigma>0 \<sigma>1"
    "list_all (\<lambda>n. valid_hyp \<sigma>1 n \<and> (\<exists>p\<in>P. child_of m i \<sigma>0 p \<sigma>1 n)) k1"
    by simp_all
  from rest e1 have r: "expand_all m dec kw beam i hs (a, b) (\<sigma>1, k1) = Inr (vars', \<sigma>', kept')"
    by simp
  from Cons.IH [OF r p(1) vhs hsP p(2)] show ?case .
qed

lemma grows_refl: "grows e \<sigma> \<sigma>"
  by (simp add: grows_def)

lemma grows_trans:
  assumes "grows e \<sigma> \<sigma>'" and "grows e \<sigma>' \<sigma>''"
  shows "grows e \<sigma> \<sigma>''"
  unfolding grows_def
proof (intro conjI allI impI)
  show "length \<sigma>'' = length \<sigma>" using assms by (simp add: grows_def)
next
  fix a assume a: "a < length \<sigma>"
  with assms(1) have 1: "\<sigma>' ! a = \<sigma> ! a \<or> (last (\<sigma> ! a) \<noteq> e \<and> \<sigma>' ! a = \<sigma> ! a @ [e])"
    and a': "a < length \<sigma>'" by (simp_all add: grows_def)
  from assms(2) a'
  have 2: "\<sigma>'' ! a = \<sigma>' ! a \<or> (last (\<sigma>' ! a) \<noteq> e \<and> \<sigma>'' ! a = \<sigma>' ! a @ [e])"
    by (simp add: grows_def)
  from 1 2 show "\<sigma>'' ! a = \<sigma> ! a \<or> (last (\<sigma> ! a) \<noteq> e \<and> \<sigma>'' ! a = \<sigma> ! a @ [e])"
    by auto
qed

lemma grows_update:
  assumes "last (\<sigma> ! b) \<noteq> e"
  shows "grows e \<sigma> (\<sigma>[b := \<sigma> ! b @ [e]])"
  unfolding grows_def
proof (intro conjI allI impI)
  show "length (\<sigma>[b := \<sigma> ! b @ [e]]) = length \<sigma>" by simp
next
  fix a assume "a < length \<sigma>"
  then show "\<sigma>[b := \<sigma> ! b @ [e]] ! a = \<sigma> ! a
      \<or> (last (\<sigma> ! a) \<noteq> e \<and> \<sigma>[b := \<sigma> ! b @ [e]] ! a = \<sigma> ! a @ [e])"
    using assms by (cases "a = b") simp_all
qed

lemma force_eos_grows: "grows e \<sigma> (force_eos e sel hs \<sigma>)"
proof (induction hs arbitrary: \<sigma>)
  case Nil
  then show ?case by (simp add: grows_refl)
next
  case (Cons h hs)
  let ?\<sigma>1 = "if last (\<sigma> ! sel h) \<noteq> e then \<sigma>[sel h := \<sigma> ! sel h @ [e]] else \<sigma>"
  have "grows e \<sigma> ?\<sigma>1" by (simp add: grows_update grows_refl)
  from grows_trans [OF this Cons.IH [of ?\<sigma>1]] show ?case by simp
qed

text \<open>The parts of a step, for the proofs below.\<close>

lemma step_structure:
  assumes "step m dec ed ta kw T i s = Inr (ex, s')"
  obtains a b \<sigma> kept where
    "expand_all m dec kw (beam_size ta) i (hyps s)
       (local_att_scores s, local_att_scores_asr s) (heap s, []) = Inr ((a, b), \<sigma>, kept)"
    and "grows (eos m) \<sigma> (heap s')"
    and "set (hyps s') \<subseteq> set kept"
    and "\<forall>n\<in>set (ended_hyps s'). n \<in> set (ended_hyps s) \<or> (\<exists>k\<in>set kept. \<exists>x. n = k\<lparr>score := x\<rparr>)"
proof -
  from assms obtain a b \<sigma> kept where
    ea: "expand_all m dec kw (beam_size ta) i (hyps s)
           (local_att_scores s, local_att_scores_asr s) (heap s, []) = Inr ((a, b), \<sigma>, kept)"
    by (auto simp: step_def split: sum.splits)
  define \<sigma>1 where "\<sigma>1 = (if int i = max_len (maxlenratio ta) T - 1
                         then force_eos (eos m) yseq kept \<sigma> else \<sigma>)"
  define \<sigma>2 where "\<sigma>2 = (if int i = max_len (maxlenratio_asr ta) T - 1
                         then force_eos (eos m) yseq_asr kept \<sigma>1 else \<sigma>1)"
  define ml where "ml = min_len (minlenratio ta) T"
  define mla where "mla = min_len (minlenratio_asr ta) T"
  define new where "new = map (\<lambda>h. h\<lparr>score := score h + real (i + 1) * penalty ta\<rparr>)
                (filter (\<lambda>h. both_eos m \<sigma>2 h \<and> long_enough ml mla \<sigma>2 h) kept)"
  define remained where "remained = filter (\<lambda>h. \<not> both_eos m \<sigma>2 h) kept"
  have part: "partition_hyps m ml mla (penalty ta) i \<sigma>2 kept (ended_hyps s, [])
                = (ended_hyps s @ new, remained)"
    by (simp add: partition_hyps_eq new_def remained_def)
  from assms ea part have s': "heap s' = \<sigma>2" "ended_hyps s' = ended_hyps s @ new"
    "set (hyps s') \<subseteq> set kept"
    by (auto simp: step_def Let_def \<sigma>1_def \<sigma>2_def ml_def mla_def remained_def
        split: if_splits)
  have "grows (eos m) \<sigma> \<sigma>1" by (simp add: \<sigma>1_def force_eos_grows grows_refl)
  moreover have "grows (eos m) \<sigma>1 \<sigma>2" by (simp add: \<sigma>2_def force_eos_grows grows_refl)
  ultimately have g: "grows (eos m) \<sigma> (heap s')" using s'(1) by (auto intro: grows_trans)
  have "\<forall>n\<in>set (ended_hyps s'). n \<in> set (ended_hyps s) \<or> (\<exists>k\<in>set kept. \<exists>x. n = k\<lparr>score := x\<rparr>)"
    unfolding s'(2) new_def by auto
  with ea g s'(3) show ?thesis by (rule that)
qed

lemma stream_after_prefix: "\<exists>zs. stream_after e wk i old tok = old @ zs"
  by (simp add: stream_after_def split: option.splits)

lemma stream_after_ended:
  "last old = e \<Longrightarrow> last (stream_after e wk i old None) = e"
  by (simp add: stream_after_def)

lemma kept_child_tokens:
  assumes ch: "child_of m i \<sigma>0 p \<sigma> k" and v: "valid_hyp \<sigma> k" and g: "grows (eos m) \<sigma> \<sigma>'"
  shows "(\<exists>zs. \<sigma>' ! yseq k = \<sigma>0 ! yseq p @ zs) \<and> (\<exists>zs. \<sigma>' ! yseq_asr k = \<sigma>0 ! yseq_asr p @ zs)
    \<and> (last (\<sigma>0 ! yseq p) = eos m \<and> 2 < i \<longrightarrow>
         \<sigma>' ! yseq k = (if wait_k_asr m \<le> int i then \<sigma>0 ! yseq p @ [eos m] else \<sigma>0 ! yseq p))
    \<and> (last (\<sigma>0 ! yseq_asr p) = eos m \<and> 2 < i \<longrightarrow>
         \<sigma>' ! yseq_asr k
           = (if wait_k_st m \<le> int i then \<sigma>0 ! yseq_asr p @ [eos m] else \<sigma>0 ! yseq_asr p))"
proof -
  from ch obtain t_st t_asr where
    st: "\<sigma> ! yseq k = stream_after (eos m) (wait_k_asr m) i (\<sigma>0 ! yseq p) t_st"
    and asr: "\<sigma> ! yseq_asr k = stream_after (eos m) (wait_k_st m) i (\<sigma>0 ! yseq_asr p) t_asr"
    and n1: "last (\<sigma>0 ! yseq p) = eos m \<and> 2 < i \<longrightarrow> t_st = None"
    and n2: "last (\<sigma>0 ! yseq_asr p) = eos m \<and> 2 < i \<longrightarrow> t_asr = None"
    by (auto simp: child_of_def)
  from v g
  have g1: "\<sigma>' ! yseq k = \<sigma> ! yseq k \<or> (last (\<sigma> ! yseq k) \<noteq> eos m \<and> \<sigma>' ! yseq k = \<sigma> ! yseq k @ [eos m])"
    and g2: "\<sigma>' ! yseq_asr k = \<sigma> ! yseq_asr k
             \<or> (last (\<sigma> ! yseq_asr k) \<noteq> eos m \<and> \<sigma>' ! yseq_asr k = \<sigma> ! yseq_asr k @ [eos m])"
    by (simp_all add: grows_def valid_hyp_def)
  from stream_after_prefix [of "eos m" "wait_k_asr m" i "\<sigma>0 ! yseq p" t_st] st g1
  have p1: "\<exists>zs. \<sigma>' ! yseq k = \<sigma>0 ! yseq p @ zs" by auto
  from stream_after_prefix [of "eos m" "wait_k_st m" i "\<sigma>0 ! yseq_asr p" t_asr] asr g2
  have p2: "\<exists>zs. \<sigma>' ! yseq_asr k = \<sigma>0 ! yseq_asr p @ zs" by auto
  have f1: "\<sigma>' ! yseq k = (if wait_k_asr m \<le> int i then \<sigma>0 ! yseq p @ [eos m] else \<sigma>0 ! yseq p)"
    if "last (\<sigma>0 ! yseq p) = eos m \<and> 2 < i"
  proof -
    from that n1 have t: "t_st = None" by simp
    with that st have "last (\<sigma> ! yseq k) = eos m" by (simp add: stream_after_ended)
    with g1 have "\<sigma>' ! yseq k = \<sigma> ! yseq k" by auto
    with st t show ?thesis by (simp add: stream_after_def)
  qed
  have f2: "\<sigma>' ! yseq_asr k
      = (if wait_k_st m \<le> int i then \<sigma>0 ! yseq_asr p @ [eos m] else \<sigma>0 ! yseq_asr p)"
    if "last (\<sigma>0 ! yseq_asr p) = eos m \<and> 2 < i"
  proof -
    from that n2 have t: "t_asr = None" by simp
    with that asr have "last (\<sigma> ! yseq_asr k) = eos m" by (simp add: stream_after_ended)
    with g2 have "\<sigma>' ! yseq_asr k = \<sigma> ! yseq_asr k" by auto
    with asr t show ?thesis by (simp add: stream_after_def)
  qed
  from p1 p2 f1 f2 show ?thesis by blast
qed

text \<open>
  C6 (as amended). Every hypothesis that a step puts into the beam or into the ended set
  continues a hypothesis \<open>p\<close> of the previous beam: both its lists begin with the lists
  of \<open>p\<close>. Where a stream of \<open>p\<close> ends with eos and the step index is greater than \<open>2\<close>,
  the stream is not frozen: it is the stream of \<open>p\<close> with one more eos when the lag of
  the other stream is over (\<open>wait_k \<le> i\<close>), and the unchanged stream of \<open>p\<close> before
  that. Steps \<open>0\<close>, \<open>1\<close> and \<open>2\<close> are not covered: there the end of a stream does not
  suppress its distribution.
\<close>

theorem ended_stream_gets_eos:
  assumes wf: "wf_state m s" and st: "step m dec ed ta kw T i s = Inr (ex, s')"
    and n: "n \<in> set (hyps s') \<or> (n \<in> set (ended_hyps s') \<and> n \<notin> set (ended_hyps s))"
  shows "\<exists>p\<in>set (hyps s).
      (\<exists>zs. tokens_st (heap s') n = tokens_st (heap s) p @ zs)
    \<and> (\<exists>zs. tokens_asr (heap s') n = tokens_asr (heap s) p @ zs)
    \<and> (last (tokens_st (heap s) p) = eos m \<and> 2 < i \<longrightarrow>
         tokens_st (heap s') n
           = (if wait_k_asr m \<le> int i then tokens_st (heap s) p @ [eos m]
              else tokens_st (heap s) p))
    \<and> (last (tokens_asr (heap s) p) = eos m \<and> 2 < i \<longrightarrow>
         tokens_asr (heap s') n
           = (if wait_k_st m \<le> int i then tokens_asr (heap s) p @ [eos m]
              else tokens_asr (heap s) p))"
proof -
  from st obtain a b \<sigma> kept where
    ea: "expand_all m dec kw (beam_size ta) i (hyps s)
       (local_att_scores s, local_att_scores_asr s) (heap s, []) = Inr ((a, b), \<sigma>, kept)"
    and g: "grows (eos m) \<sigma> (heap s')"
    and sub: "set (hyps s') \<subseteq> set kept"
    and en: "\<forall>n\<in>set (ended_hyps s'). n \<in> set (ended_hyps s)
               \<or> (\<exists>k\<in>set kept. \<exists>x. n = k\<lparr>score := x\<rparr>)"
    by (rule step_structure)
  from wf have vh: "list_all (valid_hyp (heap s)) (hyps s)" by (simp add: wf_state_def)
  from expand_all_children [OF ea extends_refl vh subset_refl]
  have kept: "\<forall>k\<in>set kept. valid_hyp \<sigma> k \<and> (\<exists>p\<in>set (hyps s). child_of m i (heap s) p \<sigma> k)"
    by (simp add: list_all_iff)
  from n sub en obtain k where k: "k \<in> set kept" "yseq n = yseq k" "yseq_asr n = yseq_asr k"
    by fastforce
  with kept obtain p where p: "p \<in> set (hyps s)" "child_of m i (heap s) p \<sigma> k" "valid_hyp \<sigma> k"
    by blast
  from kept_child_tokens [OF p(2) p(3) g] k(2,3) p(1) show ?thesis
    unfolding tokens_st_def tokens_asr_def by auto
qed

theorem ended_stream_gets_eos_witness:
  "wf_state ex_model greedy_state3
   \<and> step ex_model ex_decoder never_end greedy_args default_kwargs 5 3 greedy_state3
       = Inr (Break_no_hyps, greedy_state4)
   \<and> (\<exists>p\<in>set (hyps greedy_state3).
      (\<exists>zs. tokens_st (heap greedy_state4) \<lparr>score = - 7, yseq = 8, yseq_asr = 9\<rparr>
              = tokens_st (heap greedy_state3) p @ zs)
    \<and> (\<exists>zs. tokens_asr (heap greedy_state4) \<lparr>score = - 7, yseq = 8, yseq_asr = 9\<rparr>
              = tokens_asr (heap greedy_state3) p @ zs)
    \<and> (last (tokens_st (heap greedy_state3) p) = eos ex_model \<and> 2 < (3::nat) \<longrightarrow>
         tokens_st (heap greedy_state4) \<lparr>score = - 7, yseq = 8, yseq_asr = 9\<rparr>
           = (if wait_k_asr ex_model \<le> int 3 then tokens_st (heap greedy_state3) p @ [eos ex_model]
              else tokens_st (heap greedy_state3) p))
    \<and> (last (tokens_asr (heap greedy_state3) p) = eos ex_model \<and> 2 < (3::nat) \<longrightarrow>
         tokens_asr (heap greedy_state4) \<lparr>score = - 7, yseq = 8, yseq_asr = 9\<rparr>
           = (if wait_k_st ex_model \<le> int 3 then tokens_asr (heap greedy_state3) p @ [eos ex_model]
              else tokens_asr (heap greedy_state3) p)))
   \<and> last (tokens_st (heap greedy_state3) \<lparr>score = - 6, yseq = 6, yseq_asr = 7\<rparr>) = eos ex_model"
proof -
  have wf: "wf_state ex_model greedy_state3" by code_simp
  have st: "step ex_model ex_decoder never_end greedy_args default_kwargs 5 3 greedy_state3
       = Inr (Break_no_hyps, greedy_state4)" by code_simp
  have n: "\<lparr>score = - 7, yseq = 8, yseq_asr = 9\<rparr> \<in> set (hyps greedy_state4)
    \<or> (\<lparr>score = - 7, yseq = 8, yseq_asr = 9\<rparr> \<in> set (ended_hyps greedy_state4)
       \<and> \<lparr>score = - 7, yseq = 8, yseq_asr = 9\<rparr> \<notin> set (ended_hyps greedy_state3))"
    by (simp add: greedy_state3_def greedy_state4_def)
  have l: "last (tokens_st (heap greedy_state3) \<lparr>score = - 6, yseq = 6, yseq_asr = 7\<rparr>)
             = eos ex_model" by code_simp
  from ended_stream_gets_eos [OF wf st n] wf st l show ?thesis by (intro conjI)
qed

theorem ended_stream_counterexample:
  "search_loop ex_model ex_decoder never_end greedy_args default_kwargs 5 3 0 (init_state 2 2)
     = Inr greedy_state3
   \<and> map (tokens_st (heap greedy_state3)) (hyps greedy_state3) = [[2, 0, 2, 2]]
   \<and> last [2, 0, 2, 2] = eos ex_model
   \<and> step ex_model ex_decoder never_end greedy_args default_kwargs 5 3 greedy_state3
       = Inr (Break_no_hyps, greedy_state4)
   \<and> map (tokens_st (heap greedy_state4)) (ended_hyps greedy_state4) = [[2, 0, 2, 2, 2]]
   \<and> map_sum id (\<lambda>s. map (tokens_st (heap s)) (hyps s))
        (search_loop ex_model ex_decoder never_end greedy_args default_kwargs 5 2 0
           (init_state 2 2)) = Inr [[2, 0, 2]]"
  by code_simp

subsection \<open>Sharing of lists, and the ended set\<close>

lemma search_loop_frozen:
  assumes "search_loop m dec ed ta kw T n i s = Inr s'" and "wf_state m s"
  shows "wf_state m s' \<and> frozen (eos m) (heap s) (heap s')
         \<and> (\<exists>new. ended_hyps s' = ended_hyps s @ new)"
  using assms
proof (induction n arbitrary: i s)
  case 0
  then show ?case by (simp add: frozen_refl)
next
  case (Suc n)
  from Suc.prems(1) obtain ex s1 where st: "step m dec ed ta kw T i s = Inr (ex, s1)"
    by (auto split: sum.splits)
  note p = step_props [OF st Suc.prems(2)]
  from p(3) obtain new where new: "ended_hyps s1 = ended_hyps s @ new" by blast
  show ?case
  proof (cases ex)
    case Continue
    with Suc.prems(1) st have "search_loop m dec ed ta kw T n (Suc i) s1 = Inr s'" by simp
    from Suc.IH [OF this p(1)] p(2) new show ?thesis
      by (auto intro: frozen_trans)
  next
    case Break_end_detect
    with Suc.prems(1) st have "s' = s1" by simp
    with p new show ?thesis by auto
  next
    case Break_no_hyps
    with Suc.prems(1) st have "s' = s1" by simp
    with p new show ?thesis by auto
  qed
qed

lemma new_hyp_sharing:
  assumes "valid_hyp \<sigma> h"
  shows "case new_hyp m i h (sc, t_st, t_asr) \<sigma> of (\<sigma>', n) \<Rightarrow>
         score n = score h + sc \<and> (\<forall>a<length \<sigma>. \<sigma>' ! a = \<sigma> ! a)
       \<and> (if t_st = None \<and> int i < wait_k_asr m then yseq n = yseq h
          else length \<sigma> \<le> yseq n \<and> yseq n < length \<sigma>'
             \<and> \<sigma>' ! yseq n = \<sigma> ! yseq h @ [case t_st of Some t \<Rightarrow> t | None \<Rightarrow> eos m])
       \<and> (if t_asr = None \<and> int i < wait_k_st m then yseq_asr n = yseq_asr h
          else length \<sigma> \<le> yseq_asr n \<and> yseq_asr n < length \<sigma>'
             \<and> \<sigma>' ! yseq_asr n
                 = \<sigma> ! yseq_asr h @ [case t_asr of Some t \<Rightarrow> t | None \<Rightarrow> eos m])"
  using assms
  by (auto simp: new_hyp_def new_stream_def alloc_def valid_hyp_def nth_append
      split: option.splits)

text \<open>
  C8 (as amended). An expansion makes a new record and changes no list of the store. A
  stream that gets a token (a chosen one, or eos when it has no distribution and the lag
  is over) gets a fresh list: the parent's list extended by the token. A stream with no
  distribution inside the lag (\<open>i < wait_k\<close>) gets the parent's list object itself.
  However many iterations follow, the ended set only grows at its end, and the two lists
  of every hypothesis already in it keep their contents.
\<close>

theorem ended_never_mutated:
  "(valid_hyp \<sigma> h \<longrightarrow>
      (case new_hyp m i h (sc, t_st, t_asr) \<sigma> of (\<sigma>', n) \<Rightarrow>
         score n = score h + sc \<and> (\<forall>a<length \<sigma>. \<sigma>' ! a = \<sigma> ! a)
       \<and> (if t_st = None \<and> int i < wait_k_asr m then yseq n = yseq h
          else length \<sigma> \<le> yseq n \<and> yseq n < length \<sigma>'
             \<and> \<sigma>' ! yseq n = \<sigma> ! yseq h @ [case t_st of Some t \<Rightarrow> t | None \<Rightarrow> eos m])
       \<and> (if t_asr = None \<and> int i < wait_k_st m then yseq_asr n = yseq_asr h
          else length \<sigma> \<le> yseq_asr n \<and> yseq_asr n < length \<sigma>'
             \<and> \<sigma>' ! yseq_asr n
                 = \<sigma> ! yseq_asr h @ [case t_asr of Some t \<Rightarrow> t | None \<Rightarrow> eos m])))
   \<and> (wf_state m s \<and> search_loop m dec ed ta kw T k j s = Inr s' \<longrightarrow>
        wf_state m s' \<and> (\<exists>new. ended_hyps s' = ended_hyps s @ new)
      \<and> (\<forall>e\<in>set (ended_hyps s).
            tokens_st (heap s') e = tokens_st (heap s) e
          \<and> tokens_asr (heap s') e = tokens_asr (heap s) e))"
proof (intro conjI impI)
  assume "valid_hyp \<sigma> h"
  then show "case new_hyp m i h (sc, t_st, t_asr) \<sigma> of (\<sigma>', n) \<Rightarrow>
         score n = score h + sc \<and> (\<forall>a<length \<sigma>. \<sigma>' ! a = \<sigma> ! a)
       \<and> (if t_st = None \<and> int i < wait_k_asr m then yseq n = yseq h
          else length \<sigma> \<le> yseq n \<and> yseq n < length \<sigma>'
             \<and> \<sigma>' ! yseq n = \<sigma> ! yseq h @ [case t_st of Some t \<Rightarrow> t | None \<Rightarrow> eos m])
       \<and> (if t_asr = None \<and> int i < wait_k_st m then yseq_asr n = yseq_asr h
          else length \<sigma> \<le> yseq_asr n \<and> yseq_asr n < length \<sigma>'
             \<and> \<sigma>' ! yseq_asr n
                 = \<sigma> ! yseq_asr h @ [case t_asr of Some t \<Rightarrow> t | None \<Rightarrow> eos m])"
    by (rule new_hyp_sharing)
next
  assume a: "wf_state m s \<and> search_loop m dec ed ta kw T k j s = Inr s'"
  then have wf: "wf_state m s" and sl: "search_loop m dec ed ta kw T k j s = Inr s'"
    by simp_all
  from search_loop_frozen [OF sl wf]
  have p: "wf_state m s'" "frozen (eos m) (heap s) (heap s')"
    "\<exists>new. ended_hyps s' = ended_hyps s @ new" by simp_all
  show "wf_state m s'" by fact
  show "\<exists>new. ended_hyps s' = ended_hyps s @ new" by fact
  show "\<forall>e\<in>set (ended_hyps s).
            tokens_st (heap s') e = tokens_st (heap s) e
          \<and> tokens_asr (heap s') e = tokens_asr (heap s) e"
  proof
    fix e assume "e \<in> set (ended_hyps s)"
    with wf have "ended_ok m (heap s) e" by (simp add: wf_state_def list_all_iff)
    from frozen_tokens [OF p(2) this]
    show "tokens_st (heap s') e = tokens_st (heap s) e
          \<and> tokens_asr (heap s') e = tokens_asr (heap s) e"
      by (simp add: tokens_st_def tokens_asr_def)
  qed
qed

theorem ended_never_mutated_witness:
  "valid_hyp [[2], [2], [2, 0]] \<lparr>score = - 1, yseq = 0, yseq_asr = 2\<rparr>
   \<and> new_hyp lag_model 1 \<lparr>score = - 1, yseq = 0, yseq_asr = 2\<rparr> (- 2, None, Some 1) [[2], [2], [2, 0]]
       = ([[2], [2], [2, 0], [2, 0, 1]], \<lparr>score = - 3, yseq = 0, yseq_asr = 3\<rparr>)
   \<and> new_hyp lag_model 2 \<lparr>score = - 1, yseq = 0, yseq_asr = 2\<rparr> (- 2, Some 1, None) [[2], [2], [2, 0]]
       = ([[2], [2], [2, 0], [2, 1], [2, 0, 2]], \<lparr>score = - 3, yseq = 3, yseq_asr = 4\<rparr>)
   \<and> (case new_hyp lag_model 1 \<lparr>score = - 1, yseq = 0, yseq_asr = 2\<rparr> (- 2, None, Some 1)
         [[2], [2], [2, 0]] of (\<sigma>', n) \<Rightarrow> yseq n = 0)
   \<and> wf_state ex_model eos_state1
   \<and> search_loop ex_model eos_decoder never_end ex_args default_kwargs 2 1 1 eos_state1
       = Inr eos_state2
   \<and> wf_state ex_model eos_state2
   \<and> (\<exists>new. ended_hyps eos_state2 = ended_hyps eos_state1 @ new)
   \<and> tokens_st (heap eos_state2) \<lparr>score = - 2, yseq = 2, yseq_asr = 3\<rparr>
       = tokens_st (heap eos_state1) \<lparr>score = - 2, yseq = 2, yseq_asr = 3\<rparr>
   \<and> tokens_asr (heap eos_state2) \<lparr>score = - 2, yseq = 2, yseq_asr = 3\<rparr>
       = tokens_asr (heap eos_state1) \<lparr>score = - 2, yseq = 2, yseq_asr = 3\<rparr>"
proof -
  have v: "valid_hyp [[2], [2], [2, 0]] \<lparr>score = - 1, yseq = 0, yseq_asr = 2\<rparr>" by code_simp
  have n1: "new_hyp lag_model 1 \<lparr>score = - 1, yseq = 0, yseq_asr = 2\<rparr> (- 2, None, Some 1)
       [[2], [2], [2, 0]] = ([[2], [2], [2, 0], [2, 0, 1]], \<lparr>score = - 3, yseq = 0, yseq_asr = 3\<rparr>)"
    by code_simp
  have n2: "new_hyp lag_model 2 \<lparr>score = - 1, yseq = 0, yseq_asr = 2\<rparr> (- 2, Some 1, None)
       [[2], [2], [2, 0]]
       = ([[2], [2], [2, 0], [2, 1], [2, 0, 2]], \<lparr>score = - 3, yseq = 3, yseq_asr = 4\<rparr>)"
    by code_simp
  have wf: "wf_state ex_model eos_state1" by code_simp
  have sl: "search_loop ex_model eos_decoder never_end ex_args default_kwargs 2 1 1 eos_state1
       = Inr eos_state2" by code_simp
  have e: "\<lparr>score = - 2, yseq = 2, yseq_asr = 3\<rparr> \<in> set (ended_hyps eos_state1)"
    by (simp add: eos_state1_def)
  from ended_never_mutated [where m = lag_model and \<sigma> = "[[2], [2], [2, 0]]"
      and h = "\<lparr>score = - 1, yseq = 0, yseq_asr = 2\<rparr>" and i = 1 and sc = "- 2"
      and t_st = None and t_asr = "Some 1"] v
  have c1: "case new_hyp lag_model 1 \<lparr>score = - 1, yseq = 0, yseq_asr = 2\<rparr> (- 2, None, Some 1)
       [[2], [2], [2, 0]] of (\<sigma>', n) \<Rightarrow> yseq n = 0"
    by (auto simp: lag_model_def ex_model_def split: prod.splits)
  from ended_never_mutated [where m = ex_model and s = eos_state1 and s' = eos_state2
      and dec = eos_decoder and ed = never_end and ta = ex_args and kw = default_kwargs
      and T = 2 and k = 1 and j = 1] wf sl
  have "wf_state ex_model eos_state2 \<and> (\<exists>new. ended_hyps eos_state2 = ended_hyps eos_state1 @ new)
      \<and> (\<forall>e\<in>set (ended_hyps eos_state1).
            tokens_st (heap eos_state2) e = tokens_st (heap eos_state1) e
          \<and> tokens_asr (heap eos_state2) e = tokens_asr (heap eos_state1) e)"
    by blast
  with e v n1 n2 c1 wf sl show ?thesis by blast
qed

theorem copy_on_expand_counterexample:
  "step lag_model ex_decoder never_end ex_args default_kwargs 1 0 (init_state 0 0)
     = Inr (Break_no_hyps,
         \<lparr>heap = [[0, 2], [0], [0, 0, 2], [0, 1, 2]], hyps = [],
          ended_hyps = [\<lparr>score = - 1, yseq = 0, yseq_asr = 2\<rparr>, \<lparr>score = - 2, yseq = 0, yseq_asr = 3\<rparr>],
          local_att_scores = Some None,
          local_att_scores_asr = Some (Some [- 1, - 2, - 3])\<rparr>)
   \<and> map yseq (hyps (init_state 0 0)) = [0]
   \<and> heap (init_state 0 0) ! 0 = [0]"
  by code_simp

end
